theory Spec2Isabelle
  imports Complex_Main "HOL-Library.Word" "HOL-Library.Signed_Division"
begin

unbundle bit_operations_syntax

section \<open>JavaScript values used by the engine\<close>

text \<open>
  A \<^verbatim>\<open>bigint\<close> is an \<^typ>\<open>int\<close>. Its division \<^verbatim>\<open>/\<close> and remainder \<^verbatim>\<open>%\<close> truncate
  towards zero, so the remainder takes the sign of the dividend: they are \<open>sdiv\<close> and
  \<open>smod\<close> of the library, not \<open>div\<close> and \<open>mod\<close>.

  The \<^verbatim>\<open>number\<close>s that count (the iteration count, the speed of a share link) are
  doubles. The iteration count starts from 0 or from \<^verbatim>\<open>parseInt\<close> and is changed by
  adding integers only, so it is an integer, an infinity or \<^verbatim>\<open>NaN\<close>, and these are the
  numbers of the model (a speed with a fraction is outside it). An integer is a double
  when it has at most 53 significant bits; every result is rounded to the nearest such
  integer, the tie to the even significand, and from \<open>2^1024\<close> on it is an infinity. The
  sign of zero is not kept: \<^verbatim>\<open>toString\<close> writes \<^verbatim>\<open>0\<close> for both zeros, and a sum with a
  summand other than zero does not depend on it.
\<close>

datatype number = Num int | Infinity | NegInfinity | NaN

function bit_length :: "int \<Rightarrow> nat" where
  \<comment> \<open>the number of binary digits of a positive integer\<close>
  "bit_length x = (if x \<le> 0 then 0 else Suc (bit_length (x div 2)))"
  by pat_completeness auto
termination
  by (relation "measure nat") auto

definition to_double :: "int \<Rightarrow> number" where
  \<comment> \<open>the double nearest to an integer: up to \<open>2^53\<close> every integer is a double; above,
      the 53 leading bits \<open>q\<close> are kept and the rest \<open>r\<close> is rounded, half-way to the even
      \<open>q\<close>\<close>
  "to_double x =
     (let m = \<bar>x\<bar>
      in if m \<le> 2 ^ 53 then Num x
         else
           (let e = bit_length m - 53;
                q = m div 2 ^ e;
                r = m mod 2 ^ e;
                q1 = (if 2 ^ e < 2 * r \<or> (2 * r = 2 ^ e \<and> odd q) then q + 1 else q);
                y = q1 * 2 ^ e
            in if 2 ^ 1024 \<le> y then (if x < 0 then NegInfinity else Infinity)
               else Num (if x < 0 then - y else y)))"

fun number_plus :: "number \<Rightarrow> number \<Rightarrow> number" where
  \<comment> \<open>\<^verbatim>\<open>x + y\<close> of two numbers\<close>
  "number_plus (Num a) (Num b) = to_double (a + b)"
| "number_plus NaN _ = NaN"
| "number_plus _ NaN = NaN"
| "number_plus Infinity NegInfinity = NaN"
| "number_plus NegInfinity Infinity = NaN"
| "number_plus Infinity _ = Infinity"
| "number_plus _ Infinity = Infinity"
| "number_plus NegInfinity _ = NegInfinity"
| "number_plus _ NegInfinity = NegInfinity"

definition reads_back :: "number \<Rightarrow> bool" where
  \<comment> \<open>the numbers that are doubles and that \<^verbatim>\<open>parseInt\<close> reads back from what
      \<^verbatim>\<open>toString(16)\<close> writes: \<^verbatim>\<open>NaN\<close> and the integers with at most 53 significant bits\<close>
  "reads_back x = (case x of Num i \<Rightarrow> to_double i = Num i | NaN \<Rightarrow> True | _ \<Rightarrow> False)"

definition loop_counter :: "nat \<Rightarrow> number" where
  \<comment> \<open>the value of a loop variable that starts at 0, after \<open>t\<close> rounds of \<^verbatim>\<open>i++\<close>: at
      \<open>2^53\<close> adding 1 no longer changes it\<close>
  "loop_counter t = Num (min (int t) (2 ^ 53))"

datatype error =
    InvalidHexString
  | InvalidKeyLength nat
  | InvalidPoint
  | InvalidScalar int
  | InverseDoesNotExist
  | SyntaxError
  | TypeError

type_synonym byte = "8 word"

subsection \<open>Characters and hexadecimal text\<close>

definition is_space :: "char \<Rightarrow> bool" where
  \<comment> \<open>the characters of the regular expression class \<^verbatim>\<open>\s\<close> among the 8-bit ones:
      tab, line feed, vertical tab, form feed, carriage return, space, no-break space\<close>
  "is_space c = (of_char c \<in> {9, 10, 11, 12, 13, 32, 160 :: nat})"

definition is_hex_digit :: "char \<Rightarrow> bool" where
  \<comment> \<open>the class \<^verbatim>\<open>[0-9a-fA-F]\<close>\<close>
  "is_hex_digit c =
     (let k = (of_char c :: nat)
      in (48 \<le> k \<and> k \<le> 57) \<or> (97 \<le> k \<and> k \<le> 102) \<or> (65 \<le> k \<and> k \<le> 70))"

definition hex_value :: "char \<Rightarrow> nat" where
  "hex_value c =
     (let k = (of_char c :: nat)
      in if 48 \<le> k \<and> k \<le> 57 then k - 48
         else if 97 \<le> k \<and> k \<le> 102 then k - 87
         else k - 55)"

definition hex_char :: "nat \<Rightarrow> char" where
  \<comment> \<open>the digit \<^verbatim>\<open>toString(16)\<close> writes for a value below 16 (lower case)\<close>
  "hex_char d = (if d < 10 then char_of (48 + d) else char_of (87 + d))"

fun hex_of_nat :: "nat \<Rightarrow> string" where
  "hex_of_nat k = (if k < 16 then [hex_char k] else hex_of_nat (k div 16) @ [hex_char (k mod 16)])"

definition nat_of_hex :: "string \<Rightarrow> nat" where
  "nat_of_hex s = foldl (\<lambda>acc c. 16 * acc + hex_value c) 0 s"

definition bigint_toString16 :: "int \<Rightarrow> string" where
  \<comment> \<open>\<^verbatim>\<open>x.toString(16)\<close> of a bigint\<close>
  "bigint_toString16 x = (if x < 0 then CHR ''-'' # hex_of_nat (nat (- x)) else hex_of_nat (nat x))"

definition number_toString16 :: "number \<Rightarrow> string" where
  \<comment> \<open>\<^verbatim>\<open>x.toString(16)\<close> of a number\<close>
  "number_toString16 x =
     (case x of
        NaN \<Rightarrow> ''NaN''
      | Infinity \<Rightarrow> ''Infinity''
      | NegInfinity \<Rightarrow> ''-Infinity''
      | Num i \<Rightarrow> bigint_toString16 i)"

definition trimEnd :: "string \<Rightarrow> string" where
  "trimEnd s = rev (dropWhile is_space (rev s))"

definition has_0x_prefix :: "string \<Rightarrow> bool" where
  \<comment> \<open>\<^verbatim>\<open>s.startsWith('0x') || s.startsWith('0X')\<close>\<close>
  "has_0x_prefix s = (take 2 s = ''0x'' \<or> take 2 s = ''0X'')"

definition BigInt_0x :: "string \<Rightarrow> error + int" where
  \<comment> \<open>\<^verbatim>\<open>BigInt('0x' + s)\<close>: white space around the literal is trimmed (there is none in
      front of \<^verbatim>\<open>0x\<close>), then at least one hex digit and nothing else must follow the
      prefix; anything else is a SyntaxError\<close>
  "BigInt_0x s =
     (let t = trimEnd s
      in if t \<noteq> [] \<and> list_all is_hex_digit t then Inr (int (nat_of_hex t)) else Inl SyntaxError)"

definition parseInt16 :: "string \<Rightarrow> number" where
  \<comment> \<open>\<^verbatim>\<open>parseInt(s, 16)\<close>: leading white space is skipped, a sign and a \<^verbatim>\<open>0x\<close> prefix
      are read, then the longest run of hex digits; what follows is ignored, and no
      digit gives \<^verbatim>\<open>NaN\<close>. The result is the double nearest to the integer read. It
      never throws.\<close>
  "parseInt16 s =
     (let s1 = dropWhile is_space s;
          neg = (take 1 s1 = ''-'');
          s2 = (if take 1 s1 = ''-'' \<or> take 1 s1 = ''+'' then drop 1 s1 else s1);
          s3 = (if has_0x_prefix s2 then drop 2 s2 else s2);
          z = takeWhile is_hex_digit s3
      in if z = [] then NaN
         else to_double (if neg then - int (nat_of_hex z) else int (nat_of_hex z)))"

fun split_on :: "char \<Rightarrow> string \<Rightarrow> string list" where
  \<comment> \<open>\<^verbatim>\<open>s.split(c)\<close>: the empty string splits into one empty field\<close>
  "split_on c [] = [[]]"
| "split_on c (x # xs) =
     (if x = c then [] # split_on c xs
      else (case split_on c xs of [] \<Rightarrow> [[x]] | f # fs \<Rightarrow> (x # f) # fs))"

fun join_with :: "char \<Rightarrow> string list \<Rightarrow> string" where
  \<comment> \<open>\<^verbatim>\<open>parts.join(c)\<close>\<close>
  "join_with c [] = []"
| "join_with c [p] = p"
| "join_with c (p # q # ps) = p @ c # join_with c (q # ps)"

definition bytesToHex :: "byte list \<Rightarrow> string" where
  \<comment> \<open>two lower-case digits a byte\<close>
  "bytesToHex bytes = concat (map (\<lambda>b. [hex_char (unat b div 16), hex_char (unat b mod 16)]) bytes)"

fun hexToBytes :: "string \<Rightarrow> byte list" where
  \<comment> \<open>applied to hex digits in even number only\<close>
  "hexToBytes (a # b # rest) = of_nat (16 * hex_value a + hex_value b) # hexToBytes rest"
| "hexToBytes _ = []"

section \<open>The curve primitive\<close>

text \<open>
  The group arithmetic is the library \<^verbatim>\<open>@noble/curves\<close>, which is not part of the
  repository. The engine is modelled over any value of the record below: the base point
  \<^verbatim>\<open>CURVE.BASE\<close>, the neutral point \<^verbatim>\<open>CURVE.ZERO\<close>, \<^verbatim>\<open>p.add(q)\<close>, the order \<^verbatim>\<open>CURVE.n\<close>,
  the canonical bytes \<^verbatim>\<open>p.toRawBytes()\<close> and the decoder \<^verbatim>\<open>CURVE.fromHex\<close> (\<open>None\<close> when
  it throws). \<open>on_curve\<close> says which values of the point type are points.
\<close>

record 'p curve =
  BASE :: 'p
  ZERO :: 'p
  padd :: "'p \<Rightarrow> 'p \<Rightarrow> 'p"
  group_order :: int
  toRawBytes :: "'p \<Rightarrow> byte list"
  fromHex :: "string \<Rightarrow> 'p option"
  on_curve :: "'p \<Rightarrow> bool"

fun smul :: "'p curve \<Rightarrow> nat \<Rightarrow> 'p \<Rightarrow> 'p" where
  \<comment> \<open>the scalar multiple \<open>k\<cdot>P\<close> of the group, \<open>P\<close> added \<open>k\<close> times\<close>
  "smul C 0 P = ZERO C"
| "smul C (Suc k) P = padd C P (smul C k P)"

definition multiply :: "'p curve \<Rightarrow> 'p \<Rightarrow> int \<Rightarrow> error + 'p" where
  \<comment> \<open>Modelled from the spec: \<^verbatim>\<open>P.multiply(k)\<close> of the curve library, the scalar
      multiplication of section 6 (d), which an implementation may special-case at zero.
      The library takes the scalars \<open>1 \<le> k < n\<close> and throws on every other one; the
      source records it for zero (\<^verbatim>\<open>multiply doesn't accept 0\<close>).\<close>
  "multiply C P k =
     (if 1 \<le> k \<and> k < group_order C then Inr (smul C (nat k) P) else Inl (InvalidScalar k))"

definition toHex :: "'p curve \<Rightarrow> 'p \<Rightarrow> string" where
  "toHex C P = bytesToHex (toRawBytes C P)"

definition curve_ok :: "'p curve \<Rightarrow> bool" where
  \<comment> \<open>Modelled from the spec: the contract of the group primitive (section 6): the
      points are closed under a commutative and associative addition with a neutral
      point, the base point times the order \<open>n > 2\<close> is the neutral point, the canonical
      encoding has 32 bytes and decodes back, and the decoder returns points only.\<close>
  "curve_ok C \<longleftrightarrow>
     2 < group_order C \<and>
     on_curve C (BASE C) \<and> on_curve C (ZERO C) \<and>
     (\<forall>P R. on_curve C P \<and> on_curve C R \<longrightarrow> on_curve C (padd C P R)) \<and>
     (\<forall>P R. on_curve C P \<and> on_curve C R \<longrightarrow> padd C P R = padd C R P) \<and>
     (\<forall>P R S. on_curve C P \<and> on_curve C R \<and> on_curve C S \<longrightarrow>
        padd C (padd C P R) S = padd C P (padd C R S)) \<and>
     (\<forall>P. on_curve C P \<longrightarrow> padd C P (ZERO C) = P) \<and>
     smul C (nat (group_order C)) (BASE C) = ZERO C \<and>
     (\<forall>P. on_curve C P \<longrightarrow> length (toRawBytes C P) = 32) \<and>
     (\<forall>P. on_curve C P \<longrightarrow> fromHex C (toHex C P) = Some P) \<and>
     (\<forall>s P. fromHex C s = Some P \<longrightarrow> on_curve C P)"

section \<open>The engine\<close>

subsection \<open>Public key input\<close>

definition strip_key :: "string \<Rightarrow> string" where
  \<comment> \<open>the first two statements of \<^verbatim>\<open>validatePublicKeyFormat\<close> and \<^verbatim>\<open>parsePublicKey\<close>:
      the prefix is looked for at the very start, then \<^verbatim>\<open>trim().replace(/\s/g, '')\<close>
      removes every white space character\<close>
  "strip_key pubkeyHex =
     filter (\<lambda>c. \<not> is_space c) (if has_0x_prefix pubkeyHex then drop 2 pubkeyHex else pubkeyHex)"

definition validatePublicKeyFormat :: "string \<Rightarrow> bool" where
  "validatePublicKeyFormat pubkeyHex =
     (let h = strip_key pubkeyHex
      in if \<not> (h \<noteq> [] \<and> list_all is_hex_digit h) then False
         else length h = 64)"

definition parsePublicKey :: "'p curve \<Rightarrow> string \<Rightarrow> error + 'p" where
  "parsePublicKey C pubkeyHex =
     (let h = strip_key pubkeyHex
      in if \<not> (h \<noteq> [] \<and> list_all is_hex_digit h) then Inl InvalidHexString
         else if length h \<noteq> 64 then Inl (InvalidKeyLength (length h))
         else (case fromHex C h of None \<Rightarrow> Inl InvalidPoint | Some P \<Rightarrow> Inr P))"

subsection \<open>The walk\<close>

definition partitionFunction :: "'p curve \<Rightarrow> 'p \<Rightarrow> nat" where
  \<comment> \<open>\<^verbatim>\<open>hash\<close> is a 32-bit integer: \<^verbatim>\<open><<\<close> and \<^verbatim>\<open>|\<close> work on 32 bits and give a signed
      result, of which \<^verbatim>\<open>Math.abs(hash % 20)\<close> takes the truncated remainder\<close>
  "partitionFunction C pt =
     (let xBytes = toRawBytes C pt;
          hash = fold (\<lambda>b h. push_bit 8 h OR ucast (b AND 0xff))
                   (take (min 4 (length xBytes)) xBytes) (0 :: 32 word)
      in nat \<bar>sint hash smod 20\<bar>)"

definition C_LIST :: "int list" where
  "C_LIST = [1, 1, 1, 1, 1, 1, 1, 1, 1, 1, 2, 2, 2, 2, 2, 2, 2, 2, 2, 2]"

definition D_LIST :: "int list" where
  "D_LIST = [0, 0, 0, 0, 0, 0, 0, 0, 0, 0, 1, 1, 1, 1, 1, 1, 1, 1, 1, 1]"

record 'p step_result =
  point :: 'p
  alpha :: int
  beta :: int

definition iterationStep :: "'p curve \<Rightarrow> 'p \<Rightarrow> int \<Rightarrow> int \<Rightarrow> 'p \<Rightarrow> error + 'p step_result" where
  "iterationStep C pointP alphaP betaP target =
     (let partition = partitionFunction C pointP
      in if \<not> partition < 20 then Inl TypeError
         else
           let c = C_LIST ! partition; d = D_LIST ! partition
           in (case multiply C (BASE C) c of
                 Inl e \<Rightarrow> Inl e
               | Inr cG \<Rightarrow>
                   (case (if d = 0 then Inr (ZERO C) else multiply C target d) of
                      Inl e \<Rightarrow> Inl e
                    | Inr dQ \<Rightarrow>
                        Inr \<lparr>point = padd C (padd C pointP cG) dQ,
                             alpha = (alphaP + c) smod group_order C,
                             beta = (betaP + d) smod group_order C\<rparr>)))"

subsection \<open>The solver\<close>

function modInverse_loop :: "int \<Rightarrow> int \<Rightarrow> int \<Rightarrow> int \<Rightarrow> int \<times> int" where
  "modInverse_loop old_r r old_s s =
     (if r \<noteq> 0
      then (let quotient = old_r sdiv r
            in modInverse_loop r (old_r - quotient * r) s (old_s - quotient * s))
      else (old_r, old_s))"
  by pat_completeness auto
termination
proof (relation "measure (\<lambda>(old_r, r, old_s, s). nat \<bar>r\<bar>)")
  show "wf (measure (\<lambda>(old_r, r, old_s, s). nat \<bar>r\<bar>))"
    by simp
next
  fix old_r r old_s s quotient :: int
  assume r: "r \<noteq> 0" and q: "quotient = old_r sdiv r"
  have "old_r - old_r sdiv r * r = old_r smod r"
    by (rule minus_sdiv_mult_eq_smod)
  moreover have "\<bar>old_r smod r\<bar> < \<bar>r\<bar>"
    using r by (simp add: signed_modulo_int_def abs_mult abs_mod_less)
  ultimately show "((r, old_r - quotient * r, s, old_s - quotient * s), (old_r, r, old_s, s))
      \<in> measure (\<lambda>(old_r, r, old_s, s). nat \<bar>r\<bar>)"
    using q by simp
qed

definition modInverse :: "int \<Rightarrow> int \<Rightarrow> error + int" where
  "modInverse a m =
     (case modInverse_loop a m 1 0 of
        (old_r, old_s) \<Rightarrow>
          if old_r > 1 then Inl InverseDoesNotExist
          else Inr ((if old_s < 0 then old_s + m else old_s) smod m))"

definition pointsEqual :: "'p curve \<Rightarrow> 'p \<Rightarrow> 'p \<Rightarrow> bool" where
  \<comment> \<open>the lengths, then the bytes one by one\<close>
  "pointsEqual C p1 p2 = (toRawBytes C p1 = toRawBytes C p2)"

definition solveForK :: "'p curve \<Rightarrow> int \<Rightarrow> int \<Rightarrow> int \<Rightarrow> int \<Rightarrow> 'p \<Rightarrow> int option" where
  \<comment> \<open>\<open>None\<close> is \<^verbatim>\<open>null\<close>; what \<^verbatim>\<open>modInverse\<close> or \<^verbatim>\<open>multiply\<close> throw is caught and
      falls through to \<^verbatim>\<open>return null\<close>\<close>
  "solveForK C tAlpha tBeta hAlpha hBeta target =
     (let betaDiff = (hBeta - tBeta) smod group_order C;
          alphaDiff = (tAlpha - hAlpha) smod group_order C
      in if betaDiff = 0 then None
         else (case modInverse betaDiff (group_order C) of
                 Inl e \<Rightarrow> None
               | Inr betaInv \<Rightarrow>
                   (let k = (alphaDiff * betaInv) smod group_order C
                    in (case multiply C (BASE C) k of
                          Inl e \<Rightarrow> None
                        | Inr kG \<Rightarrow> if pointsEqual C kG target then Some k else None))))"

subsection \<open>The state and the cycle detector\<close>

record 'p AlgorithmState =
  publicKey :: string
  iteration :: number
  tortoisePoint :: 'p
  tortoiseAlpha :: int
  tortoiseBeta :: int
  harePoint :: 'p
  hareAlpha :: int
  hareBeta :: int
  Q :: 'p

definition initializeState :: "'p curve \<Rightarrow> string \<Rightarrow> error + 'p AlgorithmState" where
  "initializeState C publicKeyHex =
     (case parsePublicKey C publicKeyHex of
        Inl e \<Rightarrow> Inl e
      | Inr target \<Rightarrow>
          (let startAlpha = 1; startBeta = 1; startPoint = padd C (BASE C) target
           in Inr \<lparr>publicKey = publicKeyHex, iteration = Num 0,
                   tortoisePoint = startPoint, tortoiseAlpha = startAlpha, tortoiseBeta = startBeta,
                   harePoint = startPoint, hareAlpha = startAlpha, hareBeta = startBeta,
                   Q = target\<rparr>))"

record 'p iteration_result =
  state :: "'p AlgorithmState"
  collision :: bool
  privateKey :: "int option"

text \<open>
  The loop of \<^verbatim>\<open>performIterations\<close>: \<open>cur\<close> holds the loop variables (the two walkers) in
  the fields of the state, whose other fields stay those of the argument; \<open>i\<close> counts the
  rounds done, and the loop variable of the source, a double, has the value
  \<open>loop_counter i\<close>. The sums for the iteration count are those of the source, taken from
  left to right. An exception of the curve primitive leaves the function (\<open>Inl\<close>). A batch
  is at most \<open>2^53\<close> rounds where it runs to its end: beyond, the loop variable stays
  below the bound and only a collision or an exception ends the loop of the source.
\<close>

function performIterations_loop ::
  "'p curve \<Rightarrow> 'p AlgorithmState \<Rightarrow> nat \<Rightarrow> nat \<Rightarrow> error + 'p iteration_result" where
  "performIterations_loop C cur iterations i =
     (if i < iterations then
        (case iterationStep C (tortoisePoint cur) (tortoiseAlpha cur) (tortoiseBeta cur) (Q cur) of
           Inl e \<Rightarrow> Inl e
         | Inr tortoiseResult \<Rightarrow>
        (case iterationStep C (harePoint cur) (hareAlpha cur) (hareBeta cur) (Q cur) of
           Inl e \<Rightarrow> Inl e
         | Inr hareResult1 \<Rightarrow>
        (case iterationStep C (point hareResult1) (alpha hareResult1) (beta hareResult1) (Q cur) of
           Inl e \<Rightarrow> Inl e
         | Inr hareResult2 \<Rightarrow>
             if pointsEqual C (point tortoiseResult) (point hareResult2) then
               (case solveForK C (alpha tortoiseResult) (beta tortoiseResult)
                       (alpha hareResult2) (beta hareResult2) (Q cur) of
                  Some k \<Rightarrow>
                    Inr \<lparr>state = cur\<lparr>iteration :=
                                        number_plus (number_plus (iteration cur) (loop_counter i)) (Num 1),
                                      tortoisePoint := point tortoiseResult,
                                      tortoiseAlpha := alpha tortoiseResult,
                                      tortoiseBeta := beta tortoiseResult,
                                      harePoint := point hareResult2,
                                      hareAlpha := alpha hareResult2,
                                      hareBeta := beta hareResult2\<rparr>,
                         collision = True, privateKey = Some k\<rparr>
                | None \<Rightarrow>
                    (let newStartAlpha = (alpha tortoiseResult + 1) smod group_order C
                     in (case multiply C (BASE C) newStartAlpha of
                           Inl e \<Rightarrow> Inl e
                         | Inr aG \<Rightarrow>
                        (case multiply C (Q cur) (beta tortoiseResult) of
                           Inl e \<Rightarrow> Inl e
                         | Inr bQ \<Rightarrow>
                             (let startPoint = padd C aG bQ
                              in performIterations_loop C
                                   (cur\<lparr>tortoisePoint := startPoint,
                                        tortoiseAlpha := newStartAlpha,
                                        tortoiseBeta := beta tortoiseResult,
                                        harePoint := startPoint,
                                        hareAlpha := newStartAlpha,
                                        hareBeta := beta hareResult2\<rparr>)
                                   iterations (i + 1))))))
             else
               performIterations_loop C
                 (cur\<lparr>tortoisePoint := point tortoiseResult,
                      tortoiseAlpha := alpha tortoiseResult,
                      tortoiseBeta := beta tortoiseResult,
                      harePoint := point hareResult2,
                      hareAlpha := alpha hareResult2,
                      hareBeta := beta hareResult2\<rparr>)
                 iterations (i + 1))))
      else
        Inr \<lparr>state = cur\<lparr>iteration := number_plus (iteration cur) (Num (int iterations))\<rparr>,
             collision = False, privateKey = None\<rparr>)"
  by pat_completeness auto
termination
  by (relation "measure (\<lambda>(C, cur, iterations, i). iterations - i)") auto

definition performIterations :: "'p curve \<Rightarrow> 'p AlgorithmState \<Rightarrow> nat \<Rightarrow> error + 'p iteration_result" where
  "performIterations C state0 iterations = performIterations_loop C state0 iterations 0"

subsection \<open>The compact encoding\<close>

definition stateToCompact :: "'p curve \<Rightarrow> 'p AlgorithmState \<Rightarrow> number \<Rightarrow> string" where
  "stateToCompact C st speed =
     join_with CHR ''|''
       [drop 2 (publicKey st),
        number_toString16 (iteration st),
        number_toString16 speed,
        toHex C (tortoisePoint st),
        bigint_toString16 (tortoiseAlpha st),
        bigint_toString16 (tortoiseBeta st),
        toHex C (harePoint st),
        bigint_toString16 (hareAlpha st),
        bigint_toString16 (hareBeta st)]"

definition stateFromCompact :: "'p curve \<Rightarrow> string \<Rightarrow> ('p AlgorithmState \<times> number) option" where
  \<comment> \<open>\<open>None\<close> is \<^verbatim>\<open>null\<close>; every exception inside is caught and gives \<^verbatim>\<open>null\<close>\<close>
  "stateFromCompact C compactStr =
     (case split_on CHR ''|'' compactStr of
        [pubKeyHex, iterationStr, speedStr, tortoisePointHex, tortoiseAlphaStr, tortoiseBetaStr,
         harePointHex, hareAlphaStr, hareBetaStr] \<Rightarrow>
          (case parsePublicKey C (''0x'' @ pubKeyHex) of
             Inl e \<Rightarrow> None
           | Inr target \<Rightarrow>
          (case fromHex C tortoisePointHex of
             None \<Rightarrow> None
           | Some tp \<Rightarrow>
          (case BigInt_0x tortoiseAlphaStr of
             Inl e \<Rightarrow> None
           | Inr ta \<Rightarrow>
          (case BigInt_0x tortoiseBetaStr of
             Inl e \<Rightarrow> None
           | Inr tb \<Rightarrow>
          (case fromHex C harePointHex of
             None \<Rightarrow> None
           | Some hp \<Rightarrow>
          (case BigInt_0x hareAlphaStr of
             Inl e \<Rightarrow> None
           | Inr ha \<Rightarrow>
          (case BigInt_0x hareBetaStr of
             Inl e \<Rightarrow> None
           | Inr hb \<Rightarrow>
               Some (\<lparr>publicKey = ''0x'' @ pubKeyHex,
                      iteration = parseInt16 iterationStr,
                      tortoisePoint = tp, tortoiseAlpha = ta, tortoiseBeta = tb,
                      harePoint = hp, hareAlpha = ha, hareBeta = hb,
                      Q = target\<rparr>,
                     parseInt16 speedStr))))))))
      | _ \<Rightarrow> None)"

subsection \<open>The estimate of the remaining time\<close>











section \<open>Notions the properties are stated with\<close>

subsection \<open>The invariant of a tracked point and the reachable states\<close>

definition tracked_ok :: "'p curve \<Rightarrow> 'p \<Rightarrow> 'p \<Rightarrow> int \<Rightarrow> int \<Rightarrow> bool" where
  \<comment> \<open>\<open>point = alpha\<cdot>G + beta\<cdot>target\<close>, the coefficients being residues\<close>
  "tracked_ok C target P a b \<longleftrightarrow>
     0 \<le> a \<and> 0 \<le> b \<and> P = padd C (smul C (nat a) (BASE C)) (smul C (nat b) target)"

inductive reachable :: "'p curve \<Rightarrow> string \<Rightarrow> 'p AlgorithmState \<Rightarrow> bool"
  for C :: "'p curve" and key :: string where
  start: "initializeState C key = Inr s \<Longrightarrow> reachable C key s"
| tortoise_step:
    "reachable C key s \<Longrightarrow>
     iterationStep C (tortoisePoint s) (tortoiseAlpha s) (tortoiseBeta s) (Q s) = Inr r \<Longrightarrow>
     reachable C key (s\<lparr>tortoisePoint := point r, tortoiseAlpha := alpha r, tortoiseBeta := beta r\<rparr>)"
| hare_step:
    "reachable C key s \<Longrightarrow>
     iterationStep C (harePoint s) (hareAlpha s) (hareBeta s) (Q s) = Inr r \<Longrightarrow>
     reachable C key (s\<lparr>harePoint := point r, hareAlpha := alpha r, hareBeta := beta r\<rparr>)"

fun tortoise_steps :: "'p curve \<Rightarrow> nat \<Rightarrow> 'p AlgorithmState \<Rightarrow> error + 'p AlgorithmState" where
  \<comment> \<open>a number of steps of the tortoise, the hare at rest\<close>
  "tortoise_steps C 0 s = Inr s"
| "tortoise_steps C (Suc j) s =
     (case iterationStep C (tortoisePoint s) (tortoiseAlpha s) (tortoiseBeta s) (Q s) of
        Inl e \<Rightarrow> Inl e
      | Inr r \<Rightarrow>
          tortoise_steps C j (s\<lparr>tortoisePoint := point r, tortoiseAlpha := alpha r, tortoiseBeta := beta r\<rparr>))"

subsection \<open>Ticks of the walk\<close>

text \<open>
  One tick of the walk without the collision check, as the loop body starts: one step
  of the tortoise, two of the hare. \<open>walk_ticks\<close> repeats it; it says where the two walkers
  are after a number of ticks on which nothing was detected.
\<close>

definition walk_tick :: "'p curve \<Rightarrow> 'p AlgorithmState \<Rightarrow> error + 'p AlgorithmState" where
  "walk_tick C cur =
     (case iterationStep C (tortoisePoint cur) (tortoiseAlpha cur) (tortoiseBeta cur) (Q cur) of
        Inl e \<Rightarrow> Inl e
      | Inr tortoiseResult \<Rightarrow>
     (case iterationStep C (harePoint cur) (hareAlpha cur) (hareBeta cur) (Q cur) of
        Inl e \<Rightarrow> Inl e
      | Inr hareResult1 \<Rightarrow>
     (case iterationStep C (point hareResult1) (alpha hareResult1) (beta hareResult1) (Q cur) of
        Inl e \<Rightarrow> Inl e
      | Inr hareResult2 \<Rightarrow>
          Inr (cur\<lparr>tortoisePoint := point tortoiseResult,
                   tortoiseAlpha := alpha tortoiseResult,
                   tortoiseBeta := beta tortoiseResult,
                   harePoint := point hareResult2,
                   hareAlpha := alpha hareResult2,
                   hareBeta := beta hareResult2\<rparr>))))"

fun walk_ticks :: "'p curve \<Rightarrow> nat \<Rightarrow> 'p AlgorithmState \<Rightarrow> error + 'p AlgorithmState" where
  "walk_ticks C 0 s = Inr s"
| "walk_ticks C (Suc j) s = (case walk_tick C s of Inl e \<Rightarrow> Inl e | Inr s' \<Rightarrow> walk_ticks C j s')"

subsection \<open>The partition index of the specification\<close>

text \<open>
  The first four bytes read as an unsigned big-endian integer, and the partition index as
  the specification words it: that integer modulo 20.
\<close>

definition be32_unsigned :: "byte list \<Rightarrow> int" where
  "be32_unsigned bytes = foldl (\<lambda>acc b. 256 * acc + uint b) 0 (take 4 bytes)"

definition spec_partition :: "'p curve \<Rightarrow> 'p \<Rightarrow> int" where
  "spec_partition C P = be32_unsigned (toRawBytes C P) mod 20"

subsection \<open>The key format of the specification\<close>

text \<open>
  The accepted strings as the specification words them: white space around, an optional
  prefix \<^verbatim>\<open>0x\<close> or \<^verbatim>\<open>0X\<close>, 64 hex digits.
\<close>

definition spec_key_format :: "string \<Rightarrow> bool" where
  "spec_key_format s =
     (let t = trimEnd (dropWhile is_space s);
          u = (if has_0x_prefix t then drop 2 t else t)
      in length u = 64 \<and> list_all is_hex_digit u)"

fun is_format_error :: "error \<Rightarrow> bool" where
  "is_format_error InvalidHexString = True"
| "is_format_error (InvalidKeyLength k) = True"
| "is_format_error _ = False"

subsection \<open>The order of the curve, finite doubles\<close>



section \<open>A test group of order 23\<close>

text \<open>
  The additive group of the integers modulo 23 with generator 1, the small group the
  specification proposes for tests. A point \<open>v\<close> is encoded in 32 bytes, the first
  \<open>11 v + 1\<close> and the others zero, so that the neutral point is \<^verbatim>\<open>01 00 ... 00\<close> as
  on the curve and some encodings start with a byte above \<^verbatim>\<open>0x7f\<close>.
\<close>

definition toy_bytes :: "nat \<Rightarrow> byte list" where
  "toy_bytes v = of_nat (11 * v + 1) # replicate 31 0"

definition toy_fromHex :: "string \<Rightarrow> nat option" where
  "toy_fromHex s =
     (if length s = 64 \<and> list_all is_hex_digit s
      then (case hexToBytes s of
              [] \<Rightarrow> None
            | b # rest \<Rightarrow>
                (let k = unat b
                 in if rest = replicate 31 0 \<and> 1 \<le> k \<and> (k - 1) mod 11 = 0 \<and> (k - 1) div 11 < 23
                    then Some ((k - 1) div 11) else None))
      else None)"

definition toy23 :: "nat curve" where
  "toy23 = \<lparr>BASE = 1, ZERO = 0, padd = (\<lambda>a b. (a + b) mod 23), group_order = 23,
            toRawBytes = toy_bytes, fromHex = toy_fromHex, on_curve = (\<lambda>v. v < 23)\<rparr>"

section \<open>A test group with a cofactor\<close>

text \<open>
  The additive group of the integers modulo 46, in which the base point 2 generates the
  subgroup of order 23, of index 2, as the base point of Ed25519 generates a subgroup of
  index 8 of the curve. \<open>group_order\<close> is the order 23 of the base point, as \<^verbatim>\<open>CURVE.n\<close> is.
  A point \<open>v\<close> is encoded in 32 bytes, the first \<open>v + 1\<close> and the others zero; the decoder
  returns every point of the group, in the subgroup or not.
\<close>

definition toy46_bytes :: "nat \<Rightarrow> byte list" where
  "toy46_bytes v = of_nat (v + 1) # replicate 31 0"

definition toy46_fromHex :: "string \<Rightarrow> nat option" where
  "toy46_fromHex s =
     (if length s = 64 \<and> list_all is_hex_digit s
      then (case hexToBytes s of
              [] \<Rightarrow> None
            | b # rest \<Rightarrow>
                (let k = unat b
                 in if rest = replicate 31 0 \<and> 1 \<le> k \<and> k - 1 < 46
                    then Some (k - 1) else None))
      else None)"

definition toy46 :: "nat curve" where
  "toy46 = \<lparr>BASE = 2, ZERO = 0, padd = (\<lambda>a b. (a + b) mod 46), group_order = 23,
            toRawBytes = toy46_bytes, fromHex = toy46_fromHex, on_curve = (\<lambda>v. v < 46)\<rparr>"

section \<open>Facts about the primitives\<close>

lemma smod_nonneg: "0 \<le> x \<Longrightarrow> 0 < m \<Longrightarrow> x smod m = x mod (m :: int)"
  by (cases "x = 0") (simp_all add: signed_modulo_int_def)

lemma smod_range: "0 \<le> x \<Longrightarrow> 0 < m \<Longrightarrow> 0 \<le> x smod m \<and> x smod m < (m :: int)"
  by (simp add: smod_nonneg)

lemma curve_ok_order: "curve_ok C \<Longrightarrow> 2 < group_order C"
  by (simp add: curve_ok_def)

lemma curve_ok_BASE: "curve_ok C \<Longrightarrow> on_curve C (BASE C)"
  by (simp add: curve_ok_def)

lemma curve_ok_ZERO: "curve_ok C \<Longrightarrow> on_curve C (ZERO C)"
  by (simp add: curve_ok_def)

lemma curve_ok_closed: "curve_ok C \<Longrightarrow> on_curve C P \<Longrightarrow> on_curve C R \<Longrightarrow> on_curve C (padd C P R)"
  by (simp add: curve_ok_def)

lemma curve_ok_commute: "curve_ok C \<Longrightarrow> on_curve C P \<Longrightarrow> on_curve C R \<Longrightarrow> padd C P R = padd C R P"
  unfolding curve_ok_def by blast

lemma curve_ok_assoc:
  "curve_ok C \<Longrightarrow> on_curve C P \<Longrightarrow> on_curve C R \<Longrightarrow> on_curve C S \<Longrightarrow>
   padd C (padd C P R) S = padd C P (padd C R S)"
  unfolding curve_ok_def by blast

lemma curve_ok_zero_right: "curve_ok C \<Longrightarrow> on_curve C P \<Longrightarrow> padd C P (ZERO C) = P"
  by (simp add: curve_ok_def)

lemma curve_ok_zero_left: "curve_ok C \<Longrightarrow> on_curve C P \<Longrightarrow> padd C (ZERO C) P = P"
  using curve_ok_commute [of C "ZERO C" P] by (simp add: curve_ok_zero_right curve_ok_ZERO)

lemma curve_ok_order_BASE: "curve_ok C \<Longrightarrow> smul C (nat (group_order C)) (BASE C) = ZERO C"
  by (simp add: curve_ok_def)

lemma curve_ok_fromHex: "curve_ok C \<Longrightarrow> fromHex C s = Some P \<Longrightarrow> on_curve C P"
  unfolding curve_ok_def by blast

lemma on_curve_smul: "curve_ok C \<Longrightarrow> on_curve C P \<Longrightarrow> on_curve C (smul C k P)"
  by (induction k) (simp_all add: curve_ok_ZERO curve_ok_closed)

lemma smul_one: "curve_ok C \<Longrightarrow> on_curve C P \<Longrightarrow> smul C (Suc 0) P = P"
  by (simp add: curve_ok_zero_right)

lemma parsePublicKey_on_curve:
  "curve_ok C \<Longrightarrow> parsePublicKey C key = Inr T \<Longrightarrow> on_curve C T"
  by (auto simp: parsePublicKey_def Let_def curve_ok_fromHex split: if_splits option.splits)

subsection \<open>Hexadecimal text\<close>

lemma hex_value_hex_char: "d < 16 \<Longrightarrow> hex_value (hex_char d) = d"
  by (auto simp: hex_value_def hex_char_def Let_def)

lemma is_hex_digit_hex_char: "d < 16 \<Longrightarrow> is_hex_digit (hex_char d)"
  by (auto simp: is_hex_digit_def hex_char_def Let_def)

lemma length_bytesToHex: "length (bytesToHex bs) = 2 * length bs"
  by (induction bs) (simp_all add: bytesToHex_def)

lemma byte_nibbles: "unat (b :: byte) div 16 < 16" "unat (b :: byte) mod 16 < 16"
proof -
  have "unat b < 2 ^ LENGTH(8)"
    by (rule unsigned_less)
  then show "unat b div 16 < 16" by simp
  show "unat b mod 16 < 16" by simp
qed

lemma hex_bytesToHex: "list_all is_hex_digit (bytesToHex bs)"
  by (induction bs) (simp_all add: bytesToHex_def is_hex_digit_hex_char byte_nibbles)

lemma byte_of_nibbles: "(of_nat (16 * (unat b div 16) + unat b mod 16) :: byte) = b"
  by simp

lemma hexToBytes_bytesToHex: "hexToBytes (bytesToHex bs) = bs"
proof (induction bs)
  case Nil
  then show ?case by (simp add: bytesToHex_def)
next
  case (Cons b bs)
  have "hexToBytes (bytesToHex (b # bs)) =
          of_nat (16 * hex_value (hex_char (unat b div 16)) + hex_value (hex_char (unat b mod 16)))
            # hexToBytes (bytesToHex bs)"
    by (simp add: bytesToHex_def)
  also have "\<dots> = of_nat (16 * (unat b div 16) + unat b mod 16) # bs"
    by (simp only: hex_value_hex_char byte_nibbles Cons.IH)
  finally show ?case
    by (simp only: byte_of_nibbles)
qed

section \<open>The test group satisfies the contract\<close>

lemma toy_fromHex_toHex: "v < 23 \<Longrightarrow> toy_fromHex (bytesToHex (toy_bytes v)) = Some v"
proof -
  assume v: "v < 23"
  have len: "length (bytesToHex (toy_bytes v)) = 64"
    by (simp add: length_bytesToHex toy_bytes_def)
  have k: "unat (1 + 11 * word_of_nat v :: byte) = 11 * v + 1"
  proof -
    have "(1 + 11 * word_of_nat v :: byte) = word_of_nat (11 * v + 1)"
      by simp
    then have "unat (1 + 11 * word_of_nat v :: byte) = (11 * v + 1) mod 2 ^ LENGTH(8)"
      by (simp only: unat_of_nat)
    then show ?thesis
      using v by simp
  qed
  show ?thesis
    using v by (simp add: toy_fromHex_def len hex_bytesToHex hexToBytes_bytesToHex)
      (simp add: toy_bytes_def k Let_def)
qed

lemma toy23_ok: "curve_ok toy23"
  unfolding curve_ok_def
proof (intro conjI allI impI)
  show "\<And>P. on_curve toy23 P \<Longrightarrow> fromHex toy23 (toHex toy23 P) = Some P"
    by (simp add: toy23_def toHex_def toy_fromHex_toHex)
  show "\<And>s P. fromHex toy23 s = Some P \<Longrightarrow> on_curve toy23 P"
    by (auto simp: toy23_def toy_fromHex_def Let_def split: if_splits list.splits)
  show "smul toy23 (nat (group_order toy23)) (BASE toy23) = ZERO toy23"
    by code_simp
qed (auto simp: toy23_def toy_bytes_def mod_simps ac_simps)

lemma toy46_fromHex_toHex: "v < 46 \<Longrightarrow> toy46_fromHex (bytesToHex (toy46_bytes v)) = Some v"
proof -
  assume v: "v < 46"
  have len: "length (bytesToHex (toy46_bytes v)) = 64"
    by (simp add: length_bytesToHex toy46_bytes_def)
  have k: "unat (1 + word_of_nat v :: byte) = v + 1"
  proof -
    have "(1 + word_of_nat v :: byte) = word_of_nat (v + 1)"
      by simp
    then have "unat (1 + word_of_nat v :: byte) = (v + 1) mod 2 ^ LENGTH(8)"
      by (simp only: unat_of_nat)
    then show ?thesis
      using v by simp
  qed
  show ?thesis
    using v by (simp add: toy46_fromHex_def len hex_bytesToHex hexToBytes_bytesToHex)
      (simp add: toy46_bytes_def k Let_def)
qed

lemma toy46_ok: "curve_ok toy46"
  unfolding curve_ok_def
proof (intro conjI allI impI)
  show "\<And>P. on_curve toy46 P \<Longrightarrow> fromHex toy46 (toHex toy46 P) = Some P"
    by (simp add: toy46_def toHex_def toy46_fromHex_toHex)
  show "\<And>s P. fromHex toy46 s = Some P \<Longrightarrow> on_curve toy46 P"
    by (auto simp: toy46_def toy46_fromHex_def Let_def split: if_splits list.splits)
  show "smul toy46 (nat (group_order toy46)) (BASE toy46) = ZERO toy46"
    by code_simp
qed (auto simp: toy46_def toy46_bytes_def mod_simps ac_simps)

section \<open>Initialisation\<close>

lemma initializeState_result:
  assumes "curve_ok C" and "parsePublicKey C key = Inr T"
  shows "initializeState C key =
           Inr \<lparr>publicKey = key, iteration = Num 0,
                tortoisePoint = padd C (BASE C) T, tortoiseAlpha = 1, tortoiseBeta = 1,
                harePoint = padd C (BASE C) T, hareAlpha = 1, hareBeta = 1, Q = T\<rparr>
         \<and> tracked_ok C T (padd C (BASE C) T) 1 1"
proof -
  have T: "on_curve C T"
    using assms by (rule parsePublicKey_on_curve)
  have "smul C (nat 1) (BASE C) = BASE C" "smul C (nat 1) T = T"
    using assms(1) T by (simp_all add: curve_ok_zero_right curve_ok_BASE)
  then have "tracked_ok C T (padd C (BASE C) T) 1 1"
    by (simp add: tracked_ok_def)
  then show ?thesis
    using assms(2) by (simp add: initializeState_def Let_def)
qed

text \<open>
  C10. For a public key that parses to a point \<open>T\<close>, \<open>initializeState\<close> returns the state
  with iteration 0 in which the tortoise and the hare are the same tracked point: the
  point \<open>G + T\<close> with both coefficients 1. On a curve that keeps its contract this
  is \<open>1\<cdot>G + 1\<cdot>T\<close>, so the invariant of the tracked points holds at the start.
\<close>

theorem initializeState_start:
  assumes "curve_ok C" and "parsePublicKey C key = Inr T"
  shows "initializeState C key =
           Inr \<lparr>publicKey = key, iteration = Num 0,
                tortoisePoint = padd C (BASE C) T, tortoiseAlpha = 1, tortoiseBeta = 1,
                harePoint = padd C (BASE C) T, hareAlpha = 1, hareBeta = 1, Q = T\<rparr>
         \<and> tracked_ok C T (padd C (BASE C) T) 1 1"
  using assms by (rule initializeState_result)

theorem initializeState_start_witness:
  "initializeState toy23 ''0x1700000000000000000000000000000000000000000000000000000000000000'' =
     Inr \<lparr>publicKey = ''0x1700000000000000000000000000000000000000000000000000000000000000'',
          iteration = Num 0,
          tortoisePoint = 3, tortoiseAlpha = 1, tortoiseBeta = 1,
          harePoint = 3, hareAlpha = 1, hareBeta = 1, Q = 2\<rparr>
   \<and> tracked_ok toy23 2 3 1 1"
proof -
  have key: "parsePublicKey toy23 ''0x1700000000000000000000000000000000000000000000000000000000000000'' = Inr 2"
    by code_simp
  have sum: "padd toy23 (BASE toy23) 2 = 3"
    by code_simp
  show ?thesis
    using initializeState_start [OF toy23_ok key] unfolding sum .
qed

section \<open>The group law\<close>

declare modInverse_loop.simps [simp del]
declare performIterations_loop.simps [simp del]

lemma smul_add:
  "curve_ok C \<Longrightarrow> on_curve C P \<Longrightarrow> smul C (a + b) P = padd C (smul C a P) (smul C b P)"
proof (induction a)
  case 0
  then show ?case by (simp add: curve_ok_zero_left on_curve_smul)
next
  case (Suc a)
  then show ?case by (simp add: curve_ok_assoc on_curve_smul)
qed

lemma smul_ZERO: "curve_ok C \<Longrightarrow> smul C k (ZERO C) = ZERO C"
  by (induction k) (simp_all add: curve_ok_zero_right curve_ok_ZERO)

lemma smul_smul:
  "curve_ok C \<Longrightarrow> on_curve C P \<Longrightarrow> smul C a (smul C b P) = smul C (a * b) P"
  by (induction a) (simp_all add: smul_add)

lemma smul_mod_order:
  assumes "curve_ok C" and "on_curve C T" and "smul C m T = ZERO C"
  shows "smul C (x mod m) T = smul C x T"
proof -
  have "smul C x T = smul C (x div m * m + x mod m) T"
    by simp
  also have "\<dots> = padd C (smul C (x div m * m) T) (smul C (x mod m) T)"
    using assms(1,2) by (rule smul_add)
  also have "smul C (x div m * m) T = smul C (x div m) (smul C m T)"
    using assms(1,2) by (simp add: smul_smul)
  also have "\<dots> = ZERO C"
    using assms(1,3) by (simp add: smul_ZERO)
  finally show ?thesis
    using assms(1,2) by (simp add: curve_ok_zero_left on_curve_smul)
qed

lemma smul_BASE_mod:
  "curve_ok C \<Longrightarrow> smul C (x mod nat (group_order C)) (BASE C) = smul C x (BASE C)"
  by (rule smul_mod_order) (simp_all add: curve_ok_BASE curve_ok_order_BASE)

section \<open>The solver\<close>

lemma modInverse_one: "1 < m \<Longrightarrow> modInverse 1 m = Inr 1"
proof -
  assume m: "1 < m"
  have a: "(1 :: int) sdiv m = 0"
    using m by (simp add: signed_divide_int_def)
  have b: "m sdiv 1 = m"
    using m by (simp add: signed_divide_int_def)
  have c: "(1 :: int) smod m = 1"
    using m by (simp add: smod_nonneg)
  have "modInverse_loop 1 m 1 0 = modInverse_loop m 1 0 1"
    using m by (subst modInverse_loop.simps) (simp add: a)
  also have "\<dots> = modInverse_loop 1 0 1 (- m)"
    by (subst modInverse_loop.simps) (simp add: b)
  also have "\<dots> = (1, 1)"
    by (subst modInverse_loop.simps) simp
  finally show ?thesis
    by (simp add: modInverse_def c)
qed

lemma solveForK_negative_difference:
  assumes "3 < group_order C"
  shows "solveForK C 1 1 3 2 T = None"
proof -
  let ?n = "group_order C"
  have b: "(2 - 1) smod ?n = 1"
    using assms by (simp add: smod_nonneg)
  have a: "(1 - 3) smod ?n = - 2"
    using assms by (simp add: signed_modulo_int_def)
  have k: "2 smod ?n = 2"
    using assms by (simp add: smod_nonneg)
  have inv: "modInverse 1 ?n = Inr 1"
    using assms by (simp add: modInverse_one)
  show ?thesis
    unfolding solveForK_def Let_def b a by (simp add: inv k multiply_def)
qed

text \<open>
  C1. As specified: for coefficients in \<open>[0, n)\<close> with
  \<open>tortoiseAlpha\<cdot>G + tortoiseBeta\<cdot>Q = hareAlpha\<cdot>G + hareBeta\<cdot>Q\<close>, \<open>Q = k\<cdot>G\<close> and different
  betas, \<open>solveForK\<close> returns \<open>k mod n\<close>. The remainder of a bigint takes the sign of the
  dividend, so \<open>alphaDiff\<close> is negative when the tortoise's alpha is the smaller one; the
  candidate \<open>k\<close> is then negative, the curve refuses it as a scalar and the solver returns
  \<^verbatim>\<open>null\<close>. On every curve of order above 3 this happens for \<open>Q = (n - 2)\<cdot>G\<close> at the
  collision \<open>1\<cdot>G + 1\<cdot>Q = 3\<cdot>G + 2\<cdot>Q\<close>, where the specification promises \<open>n - 2\<close>.
\<close>

theorem solveForK_misses_key:
  assumes "curve_ok C" and "3 < group_order C"
  shows "let k = group_order C - 2; T = smul C (nat k) (BASE C)
         in 0 \<le> k \<and> k < group_order C
            \<and> padd C (smul C 1 (BASE C)) (smul C 1 T) = padd C (smul C 3 (BASE C)) (smul C 2 T)
            \<and> solveForK C 1 1 3 2 T = None"
proof -
  define m where "m = nat (group_order C)"
  have m: "3 < m"
    using assms(2) by (simp add: m_def)
  have G: "on_curve C (BASE C)"
    using assms(1) by (rule curve_ok_BASE)
  have k: "nat (group_order C - 2) = m - 2"
    by (simp add: m_def)
  have L: "padd C (smul C 1 (BASE C)) (smul C 1 (smul C (m - 2) (BASE C))) = smul C (1 + 1 * (m - 2)) (BASE C)"
    using assms(1) G by (simp only: smul_smul smul_add)
  have R: "padd C (smul C 3 (BASE C)) (smul C 2 (smul C (m - 2) (BASE C))) = smul C (3 + 2 * (m - 2)) (BASE C)"
    using assms(1) G by (simp only: smul_smul smul_add)
  have "(3 + 2 * (m - 2)) mod m = (1 + 1 * (m - 2)) mod m"
  proof -
    have "3 + 2 * (m - 2) = (1 + 1 * (m - 2)) + m"
      using m by simp
    then show ?thesis
      by (simp only: mod_add_self2)
  qed
  then have "smul C (3 + 2 * (m - 2)) (BASE C) = smul C (1 + 1 * (m - 2)) (BASE C)"
    using smul_BASE_mod [OF assms(1), of "3 + 2 * (m - 2)"] smul_BASE_mod [OF assms(1), of "1 + 1 * (m - 2)"]
    by (simp only: m_def)
  then have "padd C (smul C 1 (BASE C)) (smul C 1 (smul C (m - 2) (BASE C)))
      = padd C (smul C 3 (BASE C)) (smul C 2 (smul C (m - 2) (BASE C)))"
    by (simp only: L R)
  then show ?thesis
    using assms(2) solveForK_negative_difference [OF assms(2)] by (simp add: Let_def k)
qed

theorem solveForK_misses_key_witness:
  "padd toy23 (smul toy23 1 (BASE toy23)) (smul toy23 1 21)
     = padd toy23 (smul toy23 3 (BASE toy23)) (smul toy23 2 21)
   \<and> solveForK toy23 1 1 3 2 21 = None"
proof -
  have n: "3 < group_order toy23"
    by (simp add: toy23_def)
  have T: "smul toy23 (nat (group_order toy23 - 2)) (BASE toy23) = 21"
    by code_simp
  show ?thesis
    using solveForK_misses_key [OF toy23_ok n] unfolding Let_def T by blast
qed

section \<open>The compact encoding\<close>

declare hex_of_nat.simps [simp del]

lemma hex_digit_not_pipe: "is_hex_digit c \<Longrightarrow> c \<noteq> CHR ''|''"
  by (auto simp: is_hex_digit_def)

lemma hex_digit_not_space: "is_hex_digit c \<Longrightarrow> \<not> is_space c"
  by (auto simp: is_hex_digit_def is_space_def Let_def)

lemma hex_digits_no_pipe: "list_all is_hex_digit s \<Longrightarrow> CHR ''|'' \<notin> set s"
  by (auto simp: list_all_iff dest: hex_digit_not_pipe)

lemma hex_digits_no_space: "list_all is_hex_digit s \<Longrightarrow> filter (\<lambda>c. \<not> is_space c) s = s"
  by (induction s) (simp_all add: hex_digit_not_space)

lemma hex_of_nat_digits: "list_all is_hex_digit (hex_of_nat k)"
proof (induction k rule: hex_of_nat.induct)
  case (1 k)
  show ?case
  proof (cases "k < 16")
    case True
    then show ?thesis
      by (subst hex_of_nat.simps) (simp add: is_hex_digit_hex_char)
  next
    case False
    then show ?thesis
      using 1 by (subst hex_of_nat.simps) (simp add: is_hex_digit_hex_char)
  qed
qed

lemma split_on_append: "c \<notin> set a \<Longrightarrow> split_on c (a @ c # rest) = a # split_on c rest"
  by (induction a) auto

lemma split_on_single: "c \<notin> set a \<Longrightarrow> split_on c a = [a]"
  by (induction a) auto

lemma split_on_join:
  "fs \<noteq> [] \<Longrightarrow> \<forall>f \<in> set fs. c \<notin> set f \<Longrightarrow> split_on c (join_with c fs) = fs"
proof (induction c fs rule: join_with.induct)
  case (1 c)
  then show ?case by simp
next
  case (2 c p)
  then show ?case by (simp add: split_on_single)
next
  case (3 c p q ps)
  then show ?case by (simp add: split_on_append)
qed

lemma strip_key_prefixed_hex:
  "list_all is_hex_digit h \<Longrightarrow> strip_key (CHR ''0'' # CHR ''x'' # h) = h"
  by (simp add: strip_key_def has_0x_prefix_def hex_digits_no_space)

lemma BigInt_0x_one: "BigInt_0x ''1'' = Inr 1"
  by code_simp

lemma parseInt16_examples: "parseInt16 ''zz'' = NaN" "parseInt16 ''7g'' = Num 7"
  by code_simp+

text \<open>
  C5. As specified: \<open>stateFromCompact\<close> returns \<^verbatim>\<open>null\<close> for every malformed input, among
  them one whose numeric field is not hexadecimal. The coefficients are read by
  \<^verbatim>\<open>BigInt\<close>, which throws on such a field, but the iteration count and the speed are
  read by \<^verbatim>\<open>parseInt\<close>, which never throws: with the iteration field \<^verbatim>\<open>zz\<close> and the
  speed field \<^verbatim>\<open>7g\<close>, and a key and a point the curve decodes, a state comes back whose
  iteration count is \<^verbatim>\<open>NaN\<close>, with the speed 7.
\<close>

theorem stateFromCompact_keeps_non_hex_count:
  assumes "length key = 64" and "list_all is_hex_digit key" and "fromHex C key = Some T"
    and "CHR ''|'' \<notin> set pt" and "fromHex C pt = Some P"
  shows "stateFromCompact C (key @ ''|zz|7g|'' @ pt @ ''|1|1|'' @ pt @ ''|1|1'') =
           Some (\<lparr>publicKey = ''0x'' @ key, iteration = NaN,
                  tortoisePoint = P, tortoiseAlpha = 1, tortoiseBeta = 1,
                  harePoint = P, hareAlpha = 1, hareBeta = 1, Q = T\<rparr>, Num 7)"
proof -
  have key: "CHR ''|'' \<notin> set key"
    using assms(2) by (rule hex_digits_no_pipe)
  have eq: "key @ ''|zz|7g|'' @ pt @ ''|1|1|'' @ pt @ ''|1|1'' =
          join_with CHR ''|'' [key, ''zz'', ''7g'', pt, ''1'', ''1'', pt, ''1'', ''1'']"
    by simp
  have fields: "split_on CHR ''|'' (key @ ''|zz|7g|'' @ pt @ ''|1|1|'' @ pt @ ''|1|1'') =
      [key, ''zz'', ''7g'', pt, ''1'', ''1'', pt, ''1'', ''1'']"
    unfolding eq using key assms(4) by (intro split_on_join) simp_all
  have "key \<noteq> []"
    using assms(1) by auto
  then have parse: "parsePublicKey C (CHR ''0'' # CHR ''x'' # key) = Inr T"
    using assms(1,2,3) by (simp add: parsePublicKey_def Let_def strip_key_prefixed_hex)
  show ?thesis
    unfolding stateFromCompact_def fields
    by (simp add: parse assms(5) BigInt_0x_one parseInt16_examples)
qed

theorem stateFromCompact_keeps_non_hex_count_witness:
  "stateFromCompact toy23
     (''1700000000000000000000000000000000000000000000000000000000000000'' @ ''|zz|7g|''
        @ ''2200000000000000000000000000000000000000000000000000000000000000'' @ ''|1|1|''
        @ ''2200000000000000000000000000000000000000000000000000000000000000'' @ ''|1|1'') =
     Some (\<lparr>publicKey = ''0x'' @ ''1700000000000000000000000000000000000000000000000000000000000000'',
            iteration = NaN,
            tortoisePoint = 3, tortoiseAlpha = 1, tortoiseBeta = 1,
            harePoint = 3, hareAlpha = 1, hareBeta = 1, Q = 2\<rparr>, Num 7)"
proof -
  have a: "length ''1700000000000000000000000000000000000000000000000000000000000000'' = 64"
    by simp
  have b: "list_all is_hex_digit ''1700000000000000000000000000000000000000000000000000000000000000''"
    by code_simp
  have c: "fromHex toy23 ''1700000000000000000000000000000000000000000000000000000000000000'' = Some 2"
    by code_simp
  have d: "CHR ''|'' \<notin> set ''2200000000000000000000000000000000000000000000000000000000000000''"
    by simp
  have e: "fromHex toy23 ''2200000000000000000000000000000000000000000000000000000000000000'' = Some 3"
    by code_simp
  show ?thesis
    by (rule stateFromCompact_keeps_non_hex_count [OF a b c d e])
qed

lemma bigint_toString16_no_pipe: "CHR ''|'' \<notin> set (bigint_toString16 x)"
  using hex_digits_no_pipe [OF hex_of_nat_digits] by (simp add: bigint_toString16_def)

lemma number_toString16_no_pipe: "CHR ''|'' \<notin> set (number_toString16 x)"
  by (cases x) (simp_all add: number_toString16_def bigint_toString16_no_pipe)

lemma toHex_no_pipe: "CHR ''|'' \<notin> set (toHex C P)"
  unfolding toHex_def by (rule hex_digits_no_pipe) (rule hex_bytesToHex)

lemma split_stateToCompact:
  assumes "CHR ''|'' \<notin> set (drop 2 (publicKey st))"
  shows "split_on CHR ''|'' (stateToCompact C st v) =
       [drop 2 (publicKey st),
        number_toString16 (iteration st),
        number_toString16 v,
        toHex C (tortoisePoint st),
        bigint_toString16 (tortoiseAlpha st),
        bigint_toString16 (tortoiseBeta st),
        toHex C (harePoint st),
        bigint_toString16 (hareAlpha st),
        bigint_toString16 (hareBeta st)]"
  unfolding stateToCompact_def using assms
  by (intro split_on_join)
    (simp_all add: bigint_toString16_no_pipe number_toString16_no_pipe toHex_no_pipe)

text \<open>
  C4. As specified: decoding the compact form of a valid state gives the state back.
  \<open>stateToCompact\<close> drops the first two characters of the key as the \<^verbatim>\<open>0x\<close> prefix, without
  looking at them, and \<open>initializeState\<close> keeps the key as it was entered, prefix or not.
  For a state whose key is the 64 hex digits alone, which the input validation accepts,
  two digits are lost and the decoder refuses the 62 that are left: the round trip
  returns \<^verbatim>\<open>null\<close>.
\<close>

theorem compact_roundtrip_fails_without_prefix:
  assumes "length (publicKey st) = 64" and "list_all is_hex_digit (publicKey st)"
  shows "stateFromCompact C (stateToCompact C st v) = None"
proof -
  have hex: "list_all is_hex_digit (drop 2 (publicKey st))"
    using assms(2) by (auto simp: list_all_iff dest: in_set_dropD)
  have len: "length (drop 2 (publicKey st)) = 62"
    using assms(1) by simp
  have "parsePublicKey C (CHR ''0'' # CHR ''x'' # drop 2 (publicKey st)) = Inl (InvalidKeyLength 62)"
    using hex len by (auto simp: parsePublicKey_def Let_def strip_key_prefixed_hex)
  then show ?thesis
    unfolding stateFromCompact_def split_stateToCompact [OF hex_digits_no_pipe [OF hex]]
    by simp
qed

theorem compact_roundtrip_fails_without_prefix_witness:
  "initializeState toy23 ''1700000000000000000000000000000000000000000000000000000000000000'' =
     Inr \<lparr>publicKey = ''1700000000000000000000000000000000000000000000000000000000000000'',
          iteration = Num 0,
          tortoisePoint = 3, tortoiseAlpha = 1, tortoiseBeta = 1,
          harePoint = 3, hareAlpha = 1, hareBeta = 1, Q = 2\<rparr>
   \<and> stateFromCompact toy23
        (stateToCompact toy23
           \<lparr>publicKey = ''1700000000000000000000000000000000000000000000000000000000000000'',
            iteration = Num 0,
            tortoisePoint = 3, tortoiseAlpha = 1, tortoiseBeta = 1,
            harePoint = 3, hareAlpha = 1, hareBeta = 1, Q = 2\<rparr> (Num 500)) = None"
proof -
  have a: "initializeState toy23 ''1700000000000000000000000000000000000000000000000000000000000000'' =
     Inr \<lparr>publicKey = ''1700000000000000000000000000000000000000000000000000000000000000'',
          iteration = Num 0,
          tortoisePoint = 3, tortoiseAlpha = 1, tortoiseBeta = 1,
          harePoint = 3, hareAlpha = 1, hareBeta = 1, Q = 2\<rparr>"
    by code_simp
  have b: "list_all is_hex_digit ''1700000000000000000000000000000000000000000000000000000000000000''"
    by code_simp
  show ?thesis
    using a compact_roundtrip_fails_without_prefix
      [of "\<lparr>publicKey = ''1700000000000000000000000000000000000000000000000000000000000000'',
          iteration = Num 0,
          tortoisePoint = 3, tortoiseAlpha = 1, tortoiseBeta = 1,
          harePoint = 3, hareAlpha = 1, hareBeta = 1, Q = 2\<rparr>" toy23 "Num 500"] b
    by simp
qed

section \<open>One step of the walk\<close>

lemma abs_smod_less: "m \<noteq> 0 \<Longrightarrow> \<bar>x smod m\<bar> < \<bar>m :: int\<bar>"
  by (simp add: signed_modulo_int_def abs_mult abs_mod_less)

lemma partitionFunction_less: "partitionFunction C P < 20"
proof -
  have "nat \<bar>x smod 20\<bar> < 20" for x :: int
    using abs_smod_less [of 20 x] by linarith
  then show ?thesis
    by (simp add: partitionFunction_def Let_def)
qed

lemma C_LIST_nth: "p < 20 \<Longrightarrow> C_LIST ! p = (if p < 10 then 1 else 2)"
  unfolding C_LIST_def by (simp add: nth_Cons')

lemma D_LIST_nth: "p < 20 \<Longrightarrow> D_LIST ! p = (if p < 10 then 0 else 1)"
  unfolding D_LIST_def by (simp add: nth_Cons')

lemma iterationStep_result:
  assumes "2 < group_order C"
  shows "iterationStep C P a b T =
           (let c = (if partitionFunction C P < 10 then 1 else 2);
                d = (if partitionFunction C P < 10 then 0 else 1)
            in Inr \<lparr>point = padd C (padd C P (smul C (nat c) (BASE C))) (smul C (nat d) T),
                    alpha = (a + c) smod group_order C,
                    beta = (b + d) smod group_order C\<rparr>)"
  using assms partitionFunction_less [of C P]
  by (simp add: iterationStep_def Let_def C_LIST_nth D_LIST_nth multiply_def)


subsection \<open>The invariant is kept\<close>

lemma padd_interchange:
  assumes "curve_ok C" and "on_curve C A" and "on_curve C B" and "on_curve C D" and "on_curve C E"
  shows "padd C (padd C (padd C A B) D) E = padd C (padd C A D) (padd C B E)"
proof -
  have "padd C (padd C A B) D = padd C A (padd C B D)"
    using assms by (simp add: curve_ok_assoc)
  also have "\<dots> = padd C A (padd C D B)"
    using assms by (simp add: curve_ok_commute)
  also have "\<dots> = padd C (padd C A D) B"
    using assms by (simp add: curve_ok_assoc)
  finally have "padd C (padd C (padd C A B) D) E = padd C (padd C (padd C A D) B) E"
    by simp
  also have "\<dots> = padd C (padd C A D) (padd C B E)"
    using assms by (simp add: curve_ok_assoc curve_ok_closed)
  finally show ?thesis .
qed

lemma smul_coefficient_step:
  assumes "curve_ok C" and "on_curve C R" and "smul C (nat (group_order C)) R = ZERO C"
    and "0 \<le> a" and "0 \<le> c"
  shows "smul C (nat ((a + c) smod group_order C)) R = padd C (smul C (nat a) R) (smul C (nat c) R)"
proof -
  have n: "0 < group_order C"
    using curve_ok_order [OF assms(1)] by simp
  have "nat ((a + c) smod group_order C) = (nat a + nat c) mod nat (group_order C)"
    using assms(4,5) n by (simp add: smod_nonneg nat_mod_distrib nat_add_distrib)
  then have "smul C (nat ((a + c) smod group_order C)) R = smul C (nat a + nat c) R"
    using smul_mod_order [OF assms(1,2,3)] by simp
  then show ?thesis
    using assms(1,2) by (simp add: smul_add)
qed

lemma target_order:
  assumes "curve_ok C"
  shows "smul C (nat (group_order C)) (smul C k (BASE C)) = ZERO C"
proof -
  have "smul C (nat (group_order C)) (smul C k (BASE C)) = smul C k (smul C (nat (group_order C)) (BASE C))"
    using assms by (simp add: smul_smul curve_ok_BASE mult.commute)
  then show ?thesis
    using assms by (simp add: curve_ok_order_BASE smul_ZERO)
qed

lemma iterationStep_keeps_tracked:
  assumes "curve_ok C" and "on_curve C T" and "smul C (nat (group_order C)) T = ZERO C"
    and "tracked_ok C T P a b" and "iterationStep C P a b T = Inr r"
  shows "tracked_ok C T (point r) (alpha r) (beta r)"
proof -
  define c :: int where "c = (if partitionFunction C P < 10 then 1 else 2)"
  define d :: int where "d = (if partitionFunction C P < 10 then 0 else 1)"
  have cd: "0 \<le> c" "0 \<le> d"
    by (simp_all add: c_def d_def)
  have n: "0 < group_order C"
    using curve_ok_order [OF assms(1)] by simp
  have r: "r = \<lparr>point = padd C (padd C P (smul C (nat c) (BASE C))) (smul C (nat d) T),
                 alpha = (a + c) smod group_order C, beta = (b + d) smod group_order C\<rparr>"
    using assms(5) iterationStep_result [OF curve_ok_order [OF assms(1)], of P a b T]
    by (simp add: Let_def c_def d_def)
  have ab: "0 \<le> a" "0 \<le> b" and P: "P = padd C (smul C (nat a) (BASE C)) (smul C (nat b) T)"
    using assms(4) by (simp_all add: tracked_ok_def)
  have G: "on_curve C (BASE C)"
    using assms(1) by (rule curve_ok_BASE)
  have "point r = padd C (padd C (padd C (smul C (nat a) (BASE C)) (smul C (nat b) T))
                    (smul C (nat c) (BASE C))) (smul C (nat d) T)"
    by (simp add: r P)
  also have "\<dots> = padd C (padd C (smul C (nat a) (BASE C)) (smul C (nat c) (BASE C)))
                        (padd C (smul C (nat b) T) (smul C (nat d) T))"
    using assms(1,2) G by (intro padd_interchange on_curve_smul)
  also have "padd C (smul C (nat a) (BASE C)) (smul C (nat c) (BASE C)) = smul C (nat (alpha r)) (BASE C)"
    using smul_coefficient_step [OF assms(1) G curve_ok_order_BASE [OF assms(1)] ab(1) cd(1)]
    by (simp add: r)
  also have "padd C (smul C (nat b) T) (smul C (nat d) T) = smul C (nat (beta r)) T"
    using smul_coefficient_step [OF assms(1,2,3) ab(2) cd(2)]
    by (simp add: r)
  finally have "point r = padd C (smul C (nat (alpha r)) (BASE C)) (smul C (nat (beta r)) T)" .
  moreover have "0 \<le> alpha r" "0 \<le> beta r"
    using ab cd n by (simp_all add: r smod_nonneg)
  ultimately show ?thesis
    by (simp add: tracked_ok_def)
qed

subsection \<open>Every reachable state\<close>

lemma reachable_tortoise_steps:
  "reachable C key s \<Longrightarrow> tortoise_steps C j s = Inr s' \<Longrightarrow> reachable C key s'"
proof (induction j arbitrary: s)
  case 0
  then show ?case
    by simp
next
  case (Suc j)
  from Suc.prems(2) obtain r where
    r: "iterationStep C (tortoisePoint s) (tortoiseAlpha s) (tortoiseBeta s) (Q s) = Inr r"
    and rest: "tortoise_steps C j
                 (s\<lparr>tortoisePoint := point r, tortoiseAlpha := alpha r, tortoiseBeta := beta r\<rparr>) = Inr s'"
    by (auto split: sum.splits)
  from reachable.tortoise_step [OF Suc.prems(1) r] rest show ?case
    by (rule Suc.IH)
qed

text \<open>
  C2, as specified: for every target and every state reached from the initial state by
  steps of the walk, both tracked points satisfy \<open>point = alpha\<cdot>G + beta\<cdot>target\<close>. The
  coefficients are reduced modulo the order \<open>n\<close> of the base point, and \<open>initializeState\<close>
  takes every point the decoder returns. In the group modulo 46 the key \<^verbatim>\<open>0x18 00 ... 00\<close>
  decodes to the point 23, which is no multiple of the base point 2 and has \<open>n\<cdot>23 = 23\<close>,
  not the neutral point. After 38 steps of the tortoise its beta has passed \<open>n\<close> and is 0
  again: the tortoise is at the point 7 with \<open>alpha = 15\<close>, while \<open>15\<cdot>2 + 0\<cdot>23 = 30\<close>.
\<close>

theorem reachable_tracked_counterexample:
  "curve_ok toy46
   \<and> parsePublicKey toy46 ''0x1800000000000000000000000000000000000000000000000000000000000000'' = Inr 23
   \<and> reachable toy46 ''0x1800000000000000000000000000000000000000000000000000000000000000''
       \<lparr>publicKey = ''0x1800000000000000000000000000000000000000000000000000000000000000'',
        iteration = Num 0,
        tortoisePoint = 7, tortoiseAlpha = 15, tortoiseBeta = 0,
        harePoint = 25, hareAlpha = 1, hareBeta = 1, Q = 23\<rparr>
   \<and> \<not> tracked_ok toy46 23 7 15 0
   \<and> padd toy46 (smul toy46 15 (BASE toy46)) (smul toy46 0 23) = 30"
proof -
  let ?key = "''0x1800000000000000000000000000000000000000000000000000000000000000''"
  let ?first = "\<lparr>publicKey = ?key, iteration = Num 0,
      tortoisePoint = 25, tortoiseAlpha = 1, tortoiseBeta = 1,
      harePoint = 25, hareAlpha = 1, hareBeta = 1, Q = 23 :: nat\<rparr>"
  let ?last = "\<lparr>publicKey = ?key, iteration = Num 0,
      tortoisePoint = 7, tortoiseAlpha = 15, tortoiseBeta = 0,
      harePoint = 25, hareAlpha = 1, hareBeta = 1, Q = 23 :: nat\<rparr>"
  have key: "parsePublicKey toy46 ?key = Inr 23"
    by code_simp
  have "initializeState toy46 ?key = Inr ?first"
    by code_simp
  then have r0: "reachable toy46 ?key ?first"
    by (rule reachable.start)
  have "tortoise_steps toy46 38 ?first = Inr ?last"
    by code_simp
  with r0 have r: "reachable toy46 ?key ?last"
    by (rule reachable_tortoise_steps)
  have n: "\<not> tracked_ok toy46 23 7 15 0"
    by code_simp
  have p: "padd toy46 (smul toy46 15 (BASE toy46)) (smul toy46 0 23) = 30"
    by code_simp
  show ?thesis
    using toy46_ok key r n p by (intro conjI)
qed

text \<open>
  C2, amended. For a target \<open>Q\<close> with \<open>n\<cdot>Q\<close> the neutral point, as every multiple \<open>k\<cdot>G\<close> of
  the base point is (\<open>target_order\<close>), in every state reached from the initial state of the
  key by steps of the walk, applied to the tortoise or to the hare in any order, both
  tracked points satisfy \<open>point = alpha\<cdot>G + beta\<cdot>target\<close>. The curve keeps its contract.
\<close>

theorem reachable_tracked_ok:
  assumes "curve_ok C" and "parsePublicKey C key = Inr T"
    and "smul C (nat (group_order C)) T = ZERO C"
    and "reachable C key s"
  shows "tracked_ok C (Q s) (tortoisePoint s) (tortoiseAlpha s) (tortoiseBeta s)
         \<and> tracked_ok C (Q s) (harePoint s) (hareAlpha s) (hareBeta s)"
proof -
  have T: "on_curve C T"
    using assms(1,2) by (rule parsePublicKey_on_curve)
  from assms(4) have "Q s = T
      \<and> tracked_ok C T (tortoisePoint s) (tortoiseAlpha s) (tortoiseBeta s)
      \<and> tracked_ok C T (harePoint s) (hareAlpha s) (hareBeta s)"
  proof (induction rule: reachable.induct)
    case (start s)
    then show ?case
      using initializeState_result [OF assms(1,2)] by auto
  next
    case (tortoise_step s r)
    then show ?case
      using iterationStep_keeps_tracked [OF assms(1) T assms(3), of "tortoisePoint s" "tortoiseAlpha s" "tortoiseBeta s" r]
      by simp
  next
    case (hare_step s r)
    then show ?case
      using iterationStep_keeps_tracked [OF assms(1) T assms(3), of "harePoint s" "hareAlpha s" "hareBeta s" r]
      by simp
  qed
  then show ?thesis
    by simp
qed

theorem reachable_tracked_ok_witness:
  "reachable toy23 ''0x1700000000000000000000000000000000000000000000000000000000000000''
     \<lparr>publicKey = ''0x1700000000000000000000000000000000000000000000000000000000000000'',
      iteration = Num 0,
      tortoisePoint = 4, tortoiseAlpha = 2, tortoiseBeta = 1,
      harePoint = 5, hareAlpha = 3, hareBeta = 1, Q = 2\<rparr>
   \<and> tracked_ok toy23 2 4 2 1 \<and> tracked_ok toy23 2 5 3 1"
proof -
  let ?key = "''0x1700000000000000000000000000000000000000000000000000000000000000''"
  let ?s0 = "\<lparr>publicKey = ?key, iteration = Num 0,
      tortoisePoint = 3, tortoiseAlpha = 1, tortoiseBeta = 1,
      harePoint = 3, hareAlpha = 1, hareBeta = 1, Q = 2 :: nat\<rparr>"
  have key: "parsePublicKey toy23 ?key = Inr 2"
    by code_simp
  have ord: "smul toy23 (nat (group_order toy23)) 2 = ZERO toy23"
    by code_simp
  have "initializeState toy23 ?key = Inr ?s0"
    by code_simp
  then have r0: "reachable toy23 ?key ?s0"
    by (rule reachable.start)
  have "iterationStep toy23 3 1 1 2 = Inr \<lparr>point = 4, alpha = 2, beta = 1\<rparr>"
    by code_simp
  then have r1: "reachable toy23 ?key (?s0\<lparr>tortoisePoint := 4, tortoiseAlpha := 2, tortoiseBeta := 1\<rparr>)"
    using reachable.tortoise_step [OF r0, of "\<lparr>point = 4, alpha = 2, beta = 1\<rparr>"] by simp
  then have r2: "reachable toy23 ?key (?s0\<lparr>tortoisePoint := 4, tortoiseAlpha := 2, tortoiseBeta := 1,
      harePoint := 4, hareAlpha := 2, hareBeta := 1\<rparr>)"
    using reachable.hare_step [OF r1, of "\<lparr>point = 4, alpha = 2, beta = 1\<rparr>"]
      \<open>iterationStep toy23 3 1 1 2 = Inr \<lparr>point = 4, alpha = 2, beta = 1\<rparr>\<close> by simp
  have "iterationStep toy23 4 2 1 2 = Inr \<lparr>point = 5, alpha = 3, beta = 1\<rparr>"
    by code_simp
  then have r3: "reachable toy23 ?key \<lparr>publicKey = ?key, iteration = Num 0,
      tortoisePoint = 4, tortoiseAlpha = 2, tortoiseBeta = 1,
      harePoint = 5, hareAlpha = 3, hareBeta = 1, Q = 2\<rparr>"
    using reachable.hare_step [OF r2, of "\<lparr>point = 5, alpha = 3, beta = 1\<rparr>"] by simp
  show ?thesis
    using r3 reachable_tracked_ok [OF toy23_ok key ord r3] by simp
qed

section \<open>The cycle detector\<close>

lemma walk_tick_frame:
  "walk_tick C cur = Inr w \<Longrightarrow> Q w = Q cur \<and> iteration w = iteration cur \<and> publicKey w = publicKey cur"
  by (auto simp: walk_tick_def split: sum.splits)

lemma performIterations_loop_tick:
  assumes "i < b" and "walk_tick C cur = Inr w"
  shows "performIterations_loop C cur b i =
     (if pointsEqual C (tortoisePoint w) (harePoint w) then
        (case solveForK C (tortoiseAlpha w) (tortoiseBeta w) (hareAlpha w) (hareBeta w) (Q cur) of
           Some k \<Rightarrow>
             Inr \<lparr>state = w\<lparr>iteration := number_plus (number_plus (iteration cur) (loop_counter i)) (Num 1)\<rparr>,
                  collision = True, privateKey = Some k\<rparr>
         | None \<Rightarrow>
             (let newStartAlpha = (tortoiseAlpha w + 1) smod group_order C
              in (case multiply C (BASE C) newStartAlpha of
                    Inl e \<Rightarrow> Inl e
                  | Inr aG \<Rightarrow>
                 (case multiply C (Q cur) (tortoiseBeta w) of
                    Inl e \<Rightarrow> Inl e
                  | Inr bQ \<Rightarrow>
                      performIterations_loop C
                        (w\<lparr>tortoisePoint := padd C aG bQ, tortoiseAlpha := newStartAlpha,
                           harePoint := padd C aG bQ, hareAlpha := newStartAlpha\<rparr>)
                        b (i + 1)))))
      else performIterations_loop C w b (i + 1))"
proof -
  from assms(2) obtain tr h1 h2 where
    tr: "iterationStep C (tortoisePoint cur) (tortoiseAlpha cur) (tortoiseBeta cur) (Q cur) = Inr tr"
    and h1: "iterationStep C (harePoint cur) (hareAlpha cur) (hareBeta cur) (Q cur) = Inr h1"
    and h2: "iterationStep C (point h1) (alpha h1) (beta h1) (Q cur) = Inr h2"
    and w: "w = cur\<lparr>tortoisePoint := point tr, tortoiseAlpha := alpha tr, tortoiseBeta := beta tr,
                    harePoint := point h2, hareAlpha := alpha h2, hareBeta := beta h2\<rparr>"
    unfolding walk_tick_def by (auto split: sum.splits)
  show ?thesis
    using assms(1)
    by (subst performIterations_loop.simps)
      (simp add: tr h1 h2 w Let_def split: option.split sum.split, cases cur, simp)
qed

lemma performIterations_loop_first_collision:
  assumes "walk_ticks C (Suc m) cur = Inr w"
    and "\<forall>j. 0 < j \<and> j \<le> m \<longrightarrow>
           (\<forall>w'. walk_ticks C j cur = Inr w' \<longrightarrow> \<not> pointsEqual C (tortoisePoint w') (harePoint w'))"
    and "pointsEqual C (tortoisePoint w) (harePoint w)"
    and "solveForK C (tortoiseAlpha w) (tortoiseBeta w) (hareAlpha w) (hareBeta w) (Q cur) = Some k"
    and "i0 + m < b"
  shows "performIterations_loop C cur b i0 =
           Inr \<lparr>state = w\<lparr>iteration := number_plus (number_plus (iteration cur) (loop_counter (i0 + m))) (Num 1)\<rparr>,
                collision = True, privateKey = Some k\<rparr>"
  using assms
proof (induction m arbitrary: cur i0)
  case 0
  then have "walk_tick C cur = Inr w"
    by (simp split: sum.splits)
  then show ?case
    using 0 by (simp add: performIterations_loop_tick)
next
  case (Suc m)
  from Suc.prems(1) obtain s' where s': "walk_tick C cur = Inr s'" and w: "walk_ticks C (Suc m) s' = Inr w"
    by (auto split: sum.splits)
  have "walk_ticks C 1 cur = Inr s'"
    using s' by simp
  then have ne: "\<not> pointsEqual C (tortoisePoint s') (harePoint s')"
    using Suc.prems(2) by (metis One_nat_def le_add1 plus_1_eq_Suc zero_less_one)
  have frame: "Q s' = Q cur" "iteration s' = iteration cur"
    using walk_tick_frame [OF s'] by simp_all
  have later: "\<forall>j. 0 < j \<and> j \<le> m \<longrightarrow>
           (\<forall>w'. walk_ticks C j s' = Inr w' \<longrightarrow> \<not> pointsEqual C (tortoisePoint w') (harePoint w'))"
  proof (intro allI impI)
    fix j w'
    assume j: "0 < j \<and> j \<le> m" and "walk_ticks C j s' = Inr w'"
    then have "walk_ticks C (Suc j) cur = Inr w'"
      using s' by simp
    then show "\<not> pointsEqual C (tortoisePoint w') (harePoint w')"
      using Suc.prems(2) j by (meson Suc_le_mono zero_less_Suc)
  qed
  have "performIterations_loop C cur b i0 = performIterations_loop C s' b (i0 + 1)"
    using Suc.prems(5) ne by (simp add: performIterations_loop_tick [OF _ s'])
  also have "\<dots> = Inr \<lparr>state = w\<lparr>iteration := number_plus (number_plus (iteration s') (loop_counter (i0 + 1 + m))) (Num 1)\<rparr>,
                collision = True, privateKey = Some k\<rparr>"
    using Suc.prems(3,4,5) by (intro Suc.IH [OF w later]) (simp_all add: frame)
  finally show ?case
    by (simp add: frame)
qed

lemma to_double_exact: "\<bar>x\<bar> \<le> 2 ^ 53 \<Longrightarrow> to_double x = Num x"
  by (simp add: to_double_def)

lemma count_exact:
  assumes "0 \<le> c" and "c + int i + 1 \<le> 2 ^ 53"
  shows "number_plus (number_plus (Num c) (loop_counter i)) (Num 1) = Num (c + int i + 1)"
proof -
  have i: "min (int i) (2 ^ 53) = int i"
    using assms by simp
  have "number_plus (Num c) (loop_counter i) = Num (c + int i)"
    using assms by (simp add: loop_counter_def i to_double_exact)
  then show ?thesis
    using assms by (simp add: to_double_exact)
qed

text \<open>
  C7, as specified: for every starting state, when the points first become equal at tick
  \<open>i\<close> of the batch and the solver returns a key, the returned iteration count is the prior
  count plus \<open>i + 1\<close>. The count is a double and the source adds in doubles. The state
  below is one tick before a collision of the walk for the key \<open>2\<cdot>G\<close> of the test group,
  with the count \<open>2^53 = 9007199254740992\<close>, as the compact encoding with the count field
  \<^verbatim>\<open>20000000000000\<close> gives it. The collision comes at tick 0 and the solver returns 2;
  the prior count plus \<open>i + 1\<close> is \<open>2^53 + 1\<close>, and the source returns \<open>2^53\<close>: the sum
  \<open>2^53 + 0 + 1\<close> lies half-way between two doubles and is rounded back.
\<close>

theorem performIterations_count_counterexample:
  "stateFromCompact toy23
     (''1700000000000000000000000000000000000000000000000000000000000000|20000000000000|0|''
      @ ''f300000000000000000000000000000000000000000000000000000000000000|c|5|''
      @ ''c700000000000000000000000000000000000000000000000000000000000000|0|9'') =
     Some (\<lparr>publicKey = ''0x1700000000000000000000000000000000000000000000000000000000000000'',
            iteration = Num 9007199254740992,
            tortoisePoint = 22, tortoiseAlpha = 12, tortoiseBeta = 5,
            harePoint = 18, hareAlpha = 0, hareBeta = 9, Q = 2\<rparr>, Num 0)
   \<and> performIterations toy23
       \<lparr>publicKey = ''0x1700000000000000000000000000000000000000000000000000000000000000'',
        iteration = Num 9007199254740992,
        tortoisePoint = 22, tortoiseAlpha = 12, tortoiseBeta = 5,
        harePoint = 18, hareAlpha = 0, hareBeta = 9, Q = 2\<rparr> 1 =
     Inr \<lparr>state =
            \<lparr>publicKey = ''0x1700000000000000000000000000000000000000000000000000000000000000'',
             iteration = Num 9007199254740992,
             tortoisePoint = 0, tortoiseAlpha = 13, tortoiseBeta = 5,
             harePoint = 0, hareAlpha = 3, hareBeta = 10, Q = 2\<rparr>,
          collision = True, privateKey = Some 2\<rparr>"
proof -
  have fields: "split_on CHR ''|''
     (''1700000000000000000000000000000000000000000000000000000000000000|20000000000000|0|''
      @ ''f300000000000000000000000000000000000000000000000000000000000000|c|5|''
      @ ''c700000000000000000000000000000000000000000000000000000000000000|0|9'') =
   [''1700000000000000000000000000000000000000000000000000000000000000'', ''20000000000000'', ''0'',
    ''f300000000000000000000000000000000000000000000000000000000000000'', ''c'', ''5'',
    ''c700000000000000000000000000000000000000000000000000000000000000'', ''0'', ''9'']"
    by simp
  have count: "parseInt16 ''20000000000000'' = Num 9007199254740992"
    by (simp add: parseInt16_def Let_def has_0x_prefix_def is_space_def is_hex_digit_def
        nat_of_hex_def hex_value_def to_double_def)
  have speed: "parseInt16 ''0'' = Num 0"
    by code_simp
  have key: "parsePublicKey toy23 ''0x1700000000000000000000000000000000000000000000000000000000000000'' = Inr 2"
    by code_simp
  have points: "fromHex toy23 ''f300000000000000000000000000000000000000000000000000000000000000'' = Some 22"
    "fromHex toy23 ''c700000000000000000000000000000000000000000000000000000000000000'' = Some 18"
    by code_simp+
  have coefficients: "BigInt_0x ''c'' = Inr 12" "BigInt_0x ''5'' = Inr 5"
    "BigInt_0x ''0'' = Inr 0" "BigInt_0x ''9'' = Inr 9"
    by code_simp+
  have decoded: "stateFromCompact toy23
     (''1700000000000000000000000000000000000000000000000000000000000000|20000000000000|0|''
      @ ''f300000000000000000000000000000000000000000000000000000000000000|c|5|''
      @ ''c700000000000000000000000000000000000000000000000000000000000000|0|9'') =
     Some (\<lparr>publicKey = ''0x1700000000000000000000000000000000000000000000000000000000000000'',
            iteration = Num 9007199254740992,
            tortoisePoint = 22, tortoiseAlpha = 12, tortoiseBeta = 5,
            harePoint = 18, hareAlpha = 0, hareBeta = 9, Q = 2\<rparr>, Num 0)"
    unfolding stateFromCompact_def fields
    using count speed key points coefficients by simp
  have batch: "performIterations toy23
       \<lparr>publicKey = ''0x1700000000000000000000000000000000000000000000000000000000000000'',
        iteration = Num 9007199254740992,
        tortoisePoint = 22, tortoiseAlpha = 12, tortoiseBeta = 5,
        harePoint = 18, hareAlpha = 0, hareBeta = 9, Q = 2\<rparr> 1 =
     Inr \<lparr>state =
            \<lparr>publicKey = ''0x1700000000000000000000000000000000000000000000000000000000000000'',
             iteration = Num 9007199254740992,
             tortoisePoint = 0, tortoiseAlpha = 13, tortoiseBeta = 5,
             harePoint = 0, hareAlpha = 3, hareBeta = 10, Q = 2\<rparr>,
          collision = True, privateKey = Some 2\<rparr>"
    by code_simp
  from decoded batch show ?thesis
    by (rule conjI)
qed

text \<open>
  C7, amended. If the points of the tortoise and the hare first become equal after tick
  \<open>i\<close> of a batch of \<open>b > i\<close> ticks, and the solver returns a key \<open>k\<close> there, then
  \<open>performIterations\<close> returns at once: \<open>collision\<close> is true, the key is \<open>k\<close>, the walkers are
  where they collided, and the iteration count is \<^verbatim>\<open>state.iteration + i + 1\<close> as the source
  adds, in doubles and from left to right, not the count of the whole batch. It is the
  prior count plus \<open>i + 1\<close> whenever the prior count is a non-negative integer and that sum
  is at most \<open>2^53\<close>.
\<close>

theorem performIterations_first_collision:
  assumes "i < b"
    and "walk_ticks C (Suc i) s = Inr w"
    and "\<forall>j. 0 < j \<and> j \<le> i \<longrightarrow>
           (\<forall>w'. walk_ticks C j s = Inr w' \<longrightarrow> \<not> pointsEqual C (tortoisePoint w') (harePoint w'))"
    and "pointsEqual C (tortoisePoint w) (harePoint w)"
    and "solveForK C (tortoiseAlpha w) (tortoiseBeta w) (hareAlpha w) (hareBeta w) (Q s) = Some k"
  shows "performIterations C s b =
           Inr \<lparr>state = w\<lparr>iteration := number_plus (number_plus (iteration s) (loop_counter i)) (Num 1)\<rparr>,
                collision = True, privateKey = Some k\<rparr>
         \<and> (\<forall>c. iteration s = Num c \<and> 0 \<le> c \<and> c + int i + 1 \<le> 2 ^ 53 \<longrightarrow>
               performIterations C s b =
                 Inr \<lparr>state = w\<lparr>iteration := Num (c + int i + 1)\<rparr>,
                      collision = True, privateKey = Some k\<rparr>)"
proof -
  have r: "performIterations C s b =
           Inr \<lparr>state = w\<lparr>iteration := number_plus (number_plus (iteration s) (loop_counter i)) (Num 1)\<rparr>,
                collision = True, privateKey = Some k\<rparr>"
    using performIterations_loop_first_collision [OF assms(2,3,4,5), of 0 b] assms(1)
    by (simp add: performIterations_def)
  show ?thesis
    using r by (auto simp: count_exact)
qed

theorem performIterations_first_collision_witness:
  "performIterations toy23
     \<lparr>publicKey = ''0x1700000000000000000000000000000000000000000000000000000000000000'',
      iteration = Num 0,
      tortoisePoint = 3, tortoiseAlpha = 1, tortoiseBeta = 1,
      harePoint = 3, hareAlpha = 1, hareBeta = 1, Q = 2\<rparr> 10 =
   Inr \<lparr>state =
          \<lparr>publicKey = ''0x1700000000000000000000000000000000000000000000000000000000000000'',
           iteration = Num 8,
           tortoisePoint = 0, tortoiseAlpha = 13, tortoiseBeta = 5,
           harePoint = 0, hareAlpha = 3, hareBeta = 10, Q = 2\<rparr>,
        collision = True, privateKey = Some 2\<rparr>"
proof -
  let ?s = "\<lparr>publicKey = ''0x1700000000000000000000000000000000000000000000000000000000000000'',
      iteration = Num 0,
      tortoisePoint = 3, tortoiseAlpha = 1, tortoiseBeta = 1,
      harePoint = 3, hareAlpha = 1, hareBeta = 1, Q = 2 :: nat\<rparr>"
  let ?w = "\<lparr>publicKey = ''0x1700000000000000000000000000000000000000000000000000000000000000'',
      iteration = Num 0,
      tortoisePoint = 0, tortoiseAlpha = 13, tortoiseBeta = 5,
      harePoint = 0, hareAlpha = 3, hareBeta = 10, Q = 2 :: nat\<rparr>"
  have b: "(7 :: nat) < 10"
    by simp
  have w: "walk_ticks toy23 (Suc 7) ?s = Inr ?w"
    by code_simp
  have all: "list_all (\<lambda>j. case walk_ticks toy23 j ?s of
                          Inl e \<Rightarrow> True
                        | Inr w' \<Rightarrow> \<not> pointsEqual toy23 (tortoisePoint w') (harePoint w'))
          [1, 2, 3, 4, 5, 6, 7]"
    by code_simp
  have before: "\<forall>j. 0 < j \<and> j \<le> 7 \<longrightarrow>
      (\<forall>w'. walk_ticks toy23 j ?s = Inr w' \<longrightarrow> \<not> pointsEqual toy23 (tortoisePoint w') (harePoint w'))"
  proof (intro allI impI)
    fix j :: nat and w'
    assume j: "0 < j \<and> j \<le> 7" and wj: "walk_ticks toy23 j ?s = Inr w'"
    from j have "j \<in> set [1, 2, 3, 4, 5, 6, 7]"
      by auto
    with all have "case walk_ticks toy23 j ?s of
                          Inl e \<Rightarrow> True
                        | Inr w' \<Rightarrow> \<not> pointsEqual toy23 (tortoisePoint w') (harePoint w')"
      unfolding list_all_iff by blast
    then show "\<not> pointsEqual toy23 (tortoisePoint w') (harePoint w')"
      by (simp add: wj)
  qed
  have eq: "pointsEqual toy23 (tortoisePoint ?w) (harePoint ?w)"
    by code_simp
  have k: "solveForK toy23 (tortoiseAlpha ?w) (tortoiseBeta ?w) (hareAlpha ?w) (hareBeta ?w) (Q ?s) = Some 2"
    by code_simp
  have c: "iteration ?s = Num 0 \<and> (0 :: int) \<le> 0 \<and> 0 + int 7 + 1 \<le> 2 ^ 53"
    by simp
  from performIterations_first_collision [OF b w before eq k]
  have "performIterations toy23 ?s 10 =
          Inr \<lparr>state = ?w\<lparr>iteration := Num (0 + int 7 + 1)\<rparr>, collision = True, privateKey = Some 2\<rparr>"
    using c by blast
  then show ?thesis
    by simp
qed

subsection \<open>The restart after a trivial collision\<close>

lemma smod_small: "0 \<le> x \<Longrightarrow> x < m \<Longrightarrow> x smod m = (x :: int)"
  by (simp add: smod_nonneg)

lemma smod_self: "0 < m \<Longrightarrow> m smod m = (0 :: int)"
  by (simp add: smod_nonneg)

lemma solveForK_trivial: "solveForK C a b a' b T = None"
  by (simp add: solveForK_def signed_modulo_int_def)

lemma smul_padd:
  assumes "curve_ok C" and "on_curve C A" and "on_curve C B"
  shows "smul C k (padd C A B) = padd C (smul C k A) (smul C k B)"
proof (induction k)
  case 0
  then show ?case
    using assms(1) by (simp add: curve_ok_zero_right curve_ok_ZERO)
next
  case (Suc k)
  have "padd C (padd C A B) (padd C (smul C k A) (smul C k B))
          = padd C (padd C (padd C A B) (smul C k A)) (smul C k B)"
    using assms by (simp add: curve_ok_assoc curve_ok_closed on_curve_smul)
  also have "\<dots> = padd C (padd C A (smul C k A)) (padd C B (smul C k B))"
    using assms by (intro padd_interchange on_curve_smul)
  finally show ?case
    by (simp add: Suc)
qed

lemma iterationStep_at_ZERO:
  assumes "curve_ok C" and "10 \<le> partitionFunction C (ZERO C)"
    and "on_curve C T" and "padd C (smul C 2 (BASE C)) T = ZERO C"
  shows "iterationStep C (ZERO C) a b T =
           Inr \<lparr>point = ZERO C, alpha = (a + 2) smod group_order C, beta = (b + 1) smod group_order C\<rparr>"
proof -
  have "padd C (padd C (ZERO C) (smul C (nat 2) (BASE C))) (smul C (nat 1) T) = ZERO C"
    using assms(1,3,4)
    by (simp add: curve_ok_zero_left curve_ok_zero_right on_curve_smul curve_ok_BASE curve_ok_closed)
  then show ?thesis
    using assms(2) by (simp add: iterationStep_result [OF curve_ok_order [OF assms(1)]])
qed

text \<open>
  C8. As specified: whenever a collision is detected and the solver returns \<^verbatim>\<open>null\<close>,
  \<open>performIterations\<close> reseeds both walkers at \<open>(alpha + 1) mod n\<close> and the tortoise's beta,
  and goes on with the batch. The new point is computed with \<^verbatim>\<open>multiply\<close>, which refuses
  the scalar 0; \<open>iterationStep\<close> guards that case, the restart does not. When the
  tortoise's alpha is \<open>n - 1\<close> at a trivial collision, the new alpha is 0 and the exception
  leaves \<open>performIterations\<close>. Such a state, with both invariants in place: the target
  \<open>T = -2\<cdot>G\<close>, both walkers resting at the neutral point (which a step maps to itself when
  its partition is 10 or more, as for the encoding \<^verbatim>\<open>01 00 00 00\<close>), the tortoise with
  coefficients \<open>(n - 3, (n - 3)/2)\<close> and the hare with \<open>(n - 5, (n - 5)/2)\<close>.
\<close>

theorem performIterations_restart_throws:
  assumes "curve_ok C" and "5 \<le> group_order C" and "odd (group_order C)"
    and "10 \<le> partitionFunction C (ZERO C)"
    and "on_curve C T" and "padd C (smul C 2 (BASE C)) T = ZERO C"
  shows "let n = group_order C;
             st = \<lparr>publicKey = key, iteration = it,
                   tortoisePoint = ZERO C, tortoiseAlpha = n - 3, tortoiseBeta = (n - 3) div 2,
                   harePoint = ZERO C, hareAlpha = n - 5, hareBeta = (n - 5) div 2, Q = T\<rparr>
         in tracked_ok C T (tortoisePoint st) (tortoiseAlpha st) (tortoiseBeta st)
            \<and> tracked_ok C T (harePoint st) (hareAlpha st) (hareBeta st)
            \<and> performIterations C st 1 = Inl (InvalidScalar 0)"
proof -
  define n where "n = group_order C"
  define st where "st = \<lparr>publicKey = key, iteration = it,
                   tortoisePoint = ZERO C, tortoiseAlpha = n - 3, tortoiseBeta = (n - 3) div 2,
                   harePoint = ZERO C, hareAlpha = n - 5, hareBeta = (n - 5) div 2, Q = T\<rparr>"
  have n: "5 \<le> n" "odd n"
    using assms(2,3) by (simp_all add: n_def)
  have G: "on_curve C (BASE C)"
    using assms(1) by (rule curve_ok_BASE)
  have track: "tracked_ok C T (ZERO C) (2 * j) j" if "0 \<le> j" for j :: int
  proof -
    have "padd C (smul C (nat (2 * j)) (BASE C)) (smul C (nat j) T)
            = padd C (smul C (nat j) (smul C 2 (BASE C))) (smul C (nat j) T)"
      using assms(1) G that by (simp add: smul_smul nat_mult_distrib mult.commute)
    also have "\<dots> = smul C (nat j) (padd C (smul C 2 (BASE C)) T)"
      using assms(1,5) G by (simp add: smul_padd on_curve_smul)
    also have "\<dots> = ZERO C"
      using assms(1,6) by (simp add: smul_ZERO)
    finally show ?thesis
      using that by (simp add: tracked_ok_def)
  qed
  have "n - 3 = 2 * ((n - 3) div 2)" "n - 5 = 2 * ((n - 5) div 2)"
    using n by presburger+
  then have inv: "tracked_ok C T (ZERO C) (n - 3) ((n - 3) div 2)"
      "tracked_ok C T (ZERO C) (n - 5) ((n - 5) div 2)"
    using track [of "(n - 3) div 2"] track [of "(n - 5) div 2"] n by simp_all
  define w where "w = st\<lparr>tortoiseAlpha := n - 1, tortoiseBeta := (n - 1) div 2,
                          hareAlpha := n - 1, hareBeta := (n - 1) div 2\<rparr>"
  have a1: "(n - 3 + 2) smod n = n - 1" "(n - 5 + 2) smod n = n - 3"
    using n by (simp_all add: smod_small)
  have b1: "((n - 3) div 2 + 1) smod n = (n - 1) div 2" "((n - 5) div 2 + 1) smod n = (n - 3) div 2"
  proof -
    have "(n - 3) div 2 + 1 = (n - 1) div 2" "(n - 5) div 2 + 1 = (n - 3) div 2"
      using n by presburger+
    moreover have "0 \<le> (n - 1) div 2" "(n - 1) div 2 < n" "0 \<le> (n - 3) div 2" "(n - 3) div 2 < n"
      using n by presburger+
    ultimately show "((n - 3) div 2 + 1) smod n = (n - 1) div 2"
      "((n - 5) div 2 + 1) smod n = (n - 3) div 2"
      by (simp_all add: smod_small)
  qed
  have t: "iterationStep C (ZERO C) (n - 3) ((n - 3) div 2) T =
             Inr \<lparr>point = ZERO C, alpha = n - 1, beta = (n - 1) div 2\<rparr>"
    by (simp only: iterationStep_at_ZERO [OF assms(1,4,5,6)] n_def [symmetric] a1 b1)
  have h: "iterationStep C (ZERO C) (n - 5) ((n - 5) div 2) T =
             Inr \<lparr>point = ZERO C, alpha = n - 3, beta = (n - 3) div 2\<rparr>"
    by (simp only: iterationStep_at_ZERO [OF assms(1,4,5,6)] n_def [symmetric] a1 b1)
  have tick: "walk_tick C st = Inr w"
    unfolding walk_tick_def by (simp add: st_def w_def t h)
  have eq: "pointsEqual C (tortoisePoint w) (harePoint w)"
    by (simp add: w_def st_def pointsEqual_def)
  have none: "solveForK C (tortoiseAlpha w) (tortoiseBeta w) (hareAlpha w) (hareBeta w) (Q st) = None"
    by (simp add: w_def solveForK_trivial)
  have new: "(tortoiseAlpha w + 1) smod group_order C = 0"
    using n by (simp add: w_def n_def [symmetric] smod_self)
  have "performIterations C st 1 = Inl (InvalidScalar 0)"
    unfolding performIterations_def
    by (simp add: performIterations_loop_tick [OF _ tick] eq none new multiply_def)
  then show ?thesis
    using inv by (simp add: Let_def st_def n_def)
qed

theorem performIterations_restart_throws_witness:
  "tracked_ok toy23 21 0 20 10 \<and> tracked_ok toy23 21 0 18 9
   \<and> performIterations toy23
        \<lparr>publicKey = ''0xe800000000000000000000000000000000000000000000000000000000000000'',
         iteration = Num 0,
         tortoisePoint = 0, tortoiseAlpha = 20, tortoiseBeta = 10,
         harePoint = 0, hareAlpha = 18, hareBeta = 9, Q = 21\<rparr> 1 = Inl (InvalidScalar 0)"
proof -
  have a: "5 \<le> group_order toy23" "odd (group_order toy23)"
    by (simp_all add: toy23_def)
  have b: "10 \<le> partitionFunction toy23 (ZERO toy23)"
    by code_simp
  have c: "on_curve toy23 21"
    by (simp add: toy23_def)
  have d: "padd toy23 (smul toy23 2 (BASE toy23)) 21 = ZERO toy23"
    by code_simp
  have e: "group_order toy23 = 23" "ZERO toy23 = 0"
    by (simp_all add: toy23_def)
  show ?thesis
    using performIterations_restart_throws [OF toy23_ok a b c d,
        of "''0xe800000000000000000000000000000000000000000000000000000000000000''" "Num 0"]
    by (simp add: Let_def e)
qed

section \<open>The partition index\<close>

lemma byte_and_ff: "(b :: byte) AND 0xff = b"
proof -
  have "(0xff :: byte) = - 1" by simp
  then show ?thesis by (simp only: and.right_neutral word_bw_comms word_and_max)
qed

lemma hash_step:
  "push_bit 8 (word_of_int a :: 32 word) OR ucast (b :: byte) = word_of_int (256 * a + uint b)"
proof -
  have "push_bit 8 (word_of_int a :: 32 word) OR ucast b = push_bit 8 (word_of_int a) + ucast b"
    by (rule disjunctive_add [symmetric]) (auto simp: bit_simps dest: bit_imp_le_length)
  also have "\<dots> = word_of_int (256 * a + uint b)"
    by (simp add: push_bit_eq_mult)
  finally show ?thesis .
qed

lemma hash_fold:
  "fold (\<lambda>b h. push_bit 8 h OR ucast (b AND 0xff)) (bs :: byte list) (word_of_int a :: 32 word)
     = word_of_int (foldl (\<lambda>acc b. 256 * acc + uint b) a bs)"
  by (induction bs arbitrary: a) (simp_all only: fold_simps foldl.simps byte_and_ff hash_step)

lemma be32_bound: "0 \<le> be32_unsigned bytes \<and> be32_unsigned bytes < 2 ^ 32"
proof -
  have step: "0 \<le> foldl (\<lambda>acc b. 256 * acc + uint b) a bs
              \<and> foldl (\<lambda>acc b. 256 * acc + uint b) a bs < 256 ^ (k + length bs)"
    if "0 \<le> a \<and> a < 256 ^ k" for a :: int and k and bs :: "byte list"
    using that
  proof (induction bs arbitrary: a k)
    case Nil
    then show ?case by simp
  next
    case (Cons b bs)
    have "0 \<le> uint b" "uint b < 256"
      using unsigned_less [of b, where ?'a = int] by simp_all
    then have "0 \<le> 256 * a + uint b \<and> 256 * a + uint b < 256 ^ Suc k"
      using Cons.prems by simp
    then show ?case
      using Cons.IH [of "256 * a + uint b" "Suc k"] by simp
  qed
  have "0 \<le> be32_unsigned bytes \<and> be32_unsigned bytes < 256 ^ (0 + length (take 4 bytes))"
    unfolding be32_unsigned_def by (rule step) simp
  moreover have "(256 :: int) ^ (0 + length (take 4 bytes)) \<le> 256 ^ 4"
    by (rule power_increasing) simp_all
  ultimately show ?thesis by simp
qed

lemma sint_of_int_32:
  assumes "0 \<le> u" and "u < 2 ^ 32"
  shows "sint (word_of_int u :: 32 word) = (if u < 2 ^ 31 then u else u - 2 ^ 32)"
proof -
  have "sint (word_of_int u :: 32 word) = signed_take_bit 31 u"
    by (simp add: signed_of_int)
  also have "\<dots> = take_bit 32 (u + 2 ^ 31) - 2 ^ 31"
    by (simp add: signed_take_bit_eq_take_bit_shift)
  also have "\<dots> = (u + 2 ^ 31) mod 2 ^ 32 - 2 ^ 31"
    by (simp add: take_bit_eq_mod)
  also have "\<dots> = (if u < 2 ^ 31 then u else u - 2 ^ 32)"
  proof (cases "u < 2 ^ 31")
    case True
    then have "(u + 2 ^ 31) mod 2 ^ 32 = u + 2 ^ 31"
      using assms by simp
    then show ?thesis using True by simp
  next
    case False
    have "(u + 2 ^ 31) mod 2 ^ 32 = (u + 2 ^ 31 - 2 ^ 32) mod 2 ^ 32"
      by (metis mod_diff_right_eq mod_self diff_zero)
    also have "\<dots> = u + 2 ^ 31 - 2 ^ 32"
      using False assms by simp
    finally show ?thesis using False by simp
  qed
  finally show ?thesis .
qed

lemma partitionFunction_signed:
  "int (partitionFunction C P) =
     (let u = be32_unsigned (toRawBytes C P)
      in if u < 2 ^ 31 then u mod 20 else (2 ^ 32 - u) mod 20)"
proof -
  define u where "u = be32_unsigned (toRawBytes C P)"
  have u: "0 \<le> u" "u < 2 ^ 32"
    unfolding u_def using be32_bound by simp_all
  have "fold (\<lambda>b h. push_bit 8 h OR ucast (b AND 0xff))
          (take (min 4 (length (toRawBytes C P))) (toRawBytes C P)) (0 :: 32 word)
        = word_of_int u"
  proof -
    have "take (min 4 (length (toRawBytes C P))) (toRawBytes C P) = take 4 (toRawBytes C P)"
      by (simp add: min_def)
    then show ?thesis
      using hash_fold [of "take 4 (toRawBytes C P)" 0]
      by (simp add: u_def be32_unsigned_def)
  qed
  then have p: "int (partitionFunction C P) = \<bar>sint (word_of_int u :: 32 word) smod 20\<bar>"
    by (simp add: partitionFunction_def Let_def)
  show ?thesis
  proof (cases "u < 2 ^ 31")
    case True
    then have "sint (word_of_int u :: 32 word) smod 20 = u mod 20"
      using u by (simp add: sint_of_int_32 smod_nonneg)
    then show ?thesis
      using True by (simp add: p u_def [symmetric] Let_def)
  next
    case False
    then have "sint (word_of_int u :: 32 word) = - (2 ^ 32 - u)"
      using u by (simp add: sint_of_int_32)
    moreover have "(- (2 ^ 32 - u)) smod 20 = - ((2 ^ 32 - u) mod 20)"
      using u by (simp add: signed_modulo_int_def)
    ultimately have "\<bar>sint (word_of_int u :: 32 word) smod 20\<bar> = (2 ^ 32 - u) mod 20"
      by simp
    then show ?thesis
      using False by (simp add: p u_def [symmetric] Let_def)
  qed
qed

text \<open>
  C3, as specified: the partition index is the first four bytes, read as an unsigned
  big-endian integer, modulo 20. The source shifts and ORs in 32 bits, which gives a
  signed integer, and takes \<^verbatim>\<open>Math.abs(hash % 20)\<close>: when the first byte is \<^verbatim>\<open>0x80\<close> or
  more the index is that of the negative reading. The point 13 of the test group is
  encoded \<^verbatim>\<open>90 00 00 00\<close>: the unsigned reading gives index 4 and the rule \<open>(1, 0)\<close>, the
  source gives index 12 and applies \<open>(2, 1)\<close>.
\<close>

theorem partition_unsigned_counterexample:
  "spec_partition toy23 13 = 4 \<and> partitionFunction toy23 13 = 12
   \<and> iterationStep toy23 13 1 1 2 = Inr \<lparr>point = 17, alpha = 3, beta = 2\<rparr>"
  by code_simp

text \<open>
  C3, amended. With \<open>u\<close> the unsigned reading of the first four bytes, the index is
  \<open>u mod 20\<close> when \<open>u < 2^31\<close> and \<open>(2^32 - u) mod 20\<close> otherwise: the absolute value of the
  truncated remainder of the signed 32-bit reading. It lies in \<open>[0, 20)\<close>; an index below
  10 selects \<open>(c, d) = (1, 0)\<close>, the others \<open>(2, 1)\<close>; the step returns the point
  \<open>P + c\<cdot>G + d\<cdot>target\<close> with \<open>alpha' = (alpha + c) mod n\<close> and \<open>beta' = (beta + d) mod n\<close>, for
  coefficients that are not negative and a group order above 2. It never fails.
\<close>

theorem iterationStep_signed_partition:
  assumes "2 < group_order C" and "0 \<le> a" and "0 \<le> b"
  shows "let u = be32_unsigned (toRawBytes C P);
             idx = nat (if u < 2 ^ 31 then u mod 20 else (2 ^ 32 - u) mod 20);
             c = (if idx < 10 then 1 else 2);
             d = (if idx < 10 then 0 else 1)
         in partitionFunction C P = idx \<and> idx < 20
            \<and> iterationStep C P a b T =
                Inr \<lparr>point = padd C (padd C P (smul C c (BASE C))) (smul C d T),
                     alpha = (a + int c) mod group_order C,
                     beta = (b + int d) mod group_order C\<rparr>"
proof -
  define idx where "idx = partitionFunction C P"
  have idx: "nat (let u = be32_unsigned (toRawBytes C P)
                    in if u < 2 ^ 31 then u mod 20 else (2 ^ 32 - u) mod 20) = idx"
    unfolding idx_def partitionFunction_signed [symmetric] by simp
  have lt: "idx < 20"
    unfolding idx_def by (rule partitionFunction_less)
  have step: "iterationStep C P a b T =
                Inr \<lparr>point = padd C (padd C P (smul C (if idx < 10 then 1 else 2) (BASE C)))
                               (smul C (if idx < 10 then 0 else 1) T),
                     alpha = (a + int (if idx < 10 then 1 else 2)) mod group_order C,
                     beta = (b + int (if idx < 10 then 0 else 1)) mod group_order C\<rparr>"
    using assms by (simp add: iterationStep_result idx_def [symmetric] Let_def smod_nonneg)
  show ?thesis
    using lt step unfolding Let_def idx [unfolded Let_def] idx_def [symmetric]
    by simp
qed

theorem iterationStep_signed_partition_witness:
  "be32_unsigned (toRawBytes toy23 13) = 2415919104
   \<and> partitionFunction toy23 13 = 12
   \<and> iterationStep toy23 13 1 1 2 =
       Inr \<lparr>point = padd toy23 (padd toy23 13 (smul toy23 2 (BASE toy23))) (smul toy23 1 2),
            alpha = 3, beta = 2\<rparr>"
proof -
  have n: "2 < group_order toy23" "group_order toy23 = 23"
    by (simp_all add: toy23_def)
  have u: "be32_unsigned (toRawBytes toy23 13) = 2415919104"
    by code_simp
  show ?thesis
    using iterationStep_signed_partition [OF n(1), of 1 1 13 2]
    by (simp add: u Let_def n(2))
qed

section \<open>Public key input\<close>

text \<open>
  C9, as specified: validation accepts exactly the strings of that form. The source looks
  for the prefix before it removes white space, and then removes every white space
  character, not only the surrounding ones. A key with a space in front of the prefix has
  the specified form and is rejected; 64 hex digits with a space among them have not, and
  are accepted.
\<close>

theorem key_format_counterexample:
  "spec_key_format '' 0x1700000000000000000000000000000000000000000000000000000000000000''
   \<and> \<not> validatePublicKeyFormat '' 0x1700000000000000000000000000000000000000000000000000000000000000''
   \<and> \<not> spec_key_format ''17000000 00000000000000000000000000000000000000000000000000000000''
   \<and> validatePublicKeyFormat ''17000000 00000000000000000000000000000000000000000000000000000000''"
  by code_simp

lemma hex_key_no_prefix:
  assumes "list_all is_hex_digit (filter (\<lambda>c. \<not> is_space c) s)"
  shows "\<not> has_0x_prefix s"
proof
  assume "has_0x_prefix s"
  then obtain x rest where s: "s = CHR ''0'' # x # rest" and x: "x = CHR ''x'' \<or> x = CHR ''X''"
    unfolding has_0x_prefix_def by (cases s; cases "tl s") auto
  have "\<not> is_space x" "\<not> is_hex_digit x"
    using x by (auto simp: is_space_def is_hex_digit_def)
  then show False
    using assms by (simp add: s is_space_def)
qed

lemma validatePublicKeyFormat_iff:
  "(validatePublicKeyFormat s \<longleftrightarrow>
      (\<exists>pre body. s = pre @ body \<and> (pre = [] \<or> pre = ''0x'' \<or> pre = ''0X'')
         \<and> length (filter (\<lambda>c. \<not> is_space c) body) = 64
         \<and> list_all is_hex_digit (filter (\<lambda>c. \<not> is_space c) body)))
   \<and> (validatePublicKeyFormat s \<longrightarrow>
        parsePublicKey C s =
          (case fromHex C (strip_key s) of None \<Rightarrow> Inl InvalidPoint | Some P \<Rightarrow> Inr P))
   \<and> (\<not> validatePublicKeyFormat s \<longrightarrow>
        (\<exists>e. is_format_error e \<and> parsePublicKey C s = Inl e \<and> initializeState C s = Inl e))"
proof (intro conjI impI)
  show "validatePublicKeyFormat s \<longleftrightarrow>
      (\<exists>pre body. s = pre @ body \<and> (pre = [] \<or> pre = ''0x'' \<or> pre = ''0X'')
         \<and> length (filter (\<lambda>c. \<not> is_space c) body) = 64
         \<and> list_all is_hex_digit (filter (\<lambda>c. \<not> is_space c) body))"
    (is "?lhs \<longleftrightarrow> ?rhs")
  proof
    assume v: ?lhs
    let ?body = "if has_0x_prefix s then drop 2 s else s"
    let ?pre = "if has_0x_prefix s then take 2 s else []"
    have "s = ?pre @ ?body"
      by simp
    moreover have "?pre = [] \<or> ?pre = ''0x'' \<or> ?pre = ''0X''"
      by (auto simp: has_0x_prefix_def)
    moreover have "length (filter (\<lambda>c. \<not> is_space c) ?body) = 64
        \<and> list_all is_hex_digit (filter (\<lambda>c. \<not> is_space c) ?body)"
      using v by (simp add: validatePublicKeyFormat_def strip_key_def Let_def split: if_splits)
    ultimately show ?rhs
      by blast
  next
    assume ?rhs
    then obtain pre body where s: "s = pre @ body"
      and pre: "pre = [] \<or> pre = ''0x'' \<or> pre = ''0X''"
      and len: "length (filter (\<lambda>c. \<not> is_space c) body) = 64"
      and hex: "list_all is_hex_digit (filter (\<lambda>c. \<not> is_space c) body)"
      by blast
    have "strip_key s = filter (\<lambda>c. \<not> is_space c) body"
    proof (cases "pre = []")
      case True
      then show ?thesis
        using hex_key_no_prefix [OF hex] s by (simp add: strip_key_def)
    next
      case False
      then have "has_0x_prefix s" "drop 2 s = body"
        using pre s by (auto simp: has_0x_prefix_def)
      then show ?thesis
        by (simp add: strip_key_def)
    qed
    then show ?lhs
      using len hex by (auto simp: validatePublicKeyFormat_def Let_def)
  qed
next
  assume "validatePublicKeyFormat s"
  then show "parsePublicKey C s =
          (case fromHex C (strip_key s) of None \<Rightarrow> Inl InvalidPoint | Some P \<Rightarrow> Inr P)"
    by (simp add: validatePublicKeyFormat_def parsePublicKey_def Let_def split: if_splits)
next
  assume bad: "\<not> validatePublicKeyFormat s"
  have "parsePublicKey C s = Inl InvalidHexString
      \<or> parsePublicKey C s = Inl (InvalidKeyLength (length (strip_key s)))"
  proof (cases "strip_key s \<noteq> [] \<and> list_all is_hex_digit (strip_key s)")
    case True
    then have "length (strip_key s) \<noteq> 64"
      using bad by (simp add: validatePublicKeyFormat_def Let_def)
    then show ?thesis
      using True by (simp add: parsePublicKey_def Let_def)
  next
    case False
    then show ?thesis
      by (simp add: parsePublicKey_def Let_def)
  qed
  then show "\<exists>e. is_format_error e \<and> parsePublicKey C s = Inl e \<and> initializeState C s = Inl e"
    by (auto simp: initializeState_def)
qed

lemma strip_key_after_filter:
  assumes "validatePublicKeyFormat s"
  shows "(let u = filter (\<lambda>c. \<not> is_space c) s
          in if has_0x_prefix u then drop 2 u else u) = strip_key s"
proof (cases "has_0x_prefix s")
  case True
  then obtain x rest where s: "s = CHR ''0'' # x # rest" and x: "x = CHR ''x'' \<or> x = CHR ''X''"
    unfolding has_0x_prefix_def by (cases s; cases "tl s") auto
  have "\<not> is_space x" "\<not> is_space CHR ''0''"
    using x by (auto simp: is_space_def)
  then show ?thesis
    using x by (auto simp: s strip_key_def has_0x_prefix_def Let_def)
next
  case False
  then have k: "strip_key s = filter (\<lambda>c. \<not> is_space c) s"
    by (simp add: strip_key_def)
  then have "list_all is_hex_digit (filter (\<lambda>c. \<not> is_space c) (filter (\<lambda>c. \<not> is_space c) s))"
    using assms by (simp add: validatePublicKeyFormat_def Let_def split: if_splits)
  then have "\<not> has_0x_prefix (filter (\<lambda>c. \<not> is_space c) s)"
    by (rule hex_key_no_prefix)
  then show ?thesis
    by (simp add: k Let_def)
qed

text \<open>
  C9, amended. \<open>validatePublicKeyFormat\<close> accepts every string made of an optional prefix
  \<^verbatim>\<open>0x\<close> or \<^verbatim>\<open>0X\<close> at its very start followed by 64 hex digits with white space anywhere
  among, before or after them. Every string it accepts has exactly 64 hex digits once
  all white space and then a leading prefix are taken away. For an accepted string
  \<open>parsePublicKey\<close> raises no format error: it hands the 64 digits to the curve's decoder.
  For a rejected string it raises a format error, and \<open>initializeState\<close> raises it too: no
  state is created.
\<close>

theorem validatePublicKeyFormat_accepts:
  "((pre = [] \<or> pre = ''0x'' \<or> pre = ''0X'')
      \<and> length (filter (\<lambda>c. \<not> is_space c) body) = 64
      \<and> list_all is_hex_digit (filter (\<lambda>c. \<not> is_space c) body)
      \<longrightarrow> validatePublicKeyFormat (pre @ body))
   \<and> (validatePublicKeyFormat s \<longrightarrow>
        (let u = filter (\<lambda>c. \<not> is_space c) s;
             h = (if has_0x_prefix u then drop 2 u else u)
         in length h = 64 \<and> list_all is_hex_digit h)
        \<and> parsePublicKey C s =
            (case fromHex C (strip_key s) of None \<Rightarrow> Inl InvalidPoint | Some P \<Rightarrow> Inr P))
   \<and> (\<not> validatePublicKeyFormat s \<longrightarrow>
        (\<exists>e. is_format_error e \<and> parsePublicKey C s = Inl e \<and> initializeState C s = Inl e))"
proof (intro conjI impI)
  assume "(pre = [] \<or> pre = ''0x'' \<or> pre = ''0X'')
      \<and> length (filter (\<lambda>c. \<not> is_space c) body) = 64
      \<and> list_all is_hex_digit (filter (\<lambda>c. \<not> is_space c) body)"
  then show "validatePublicKeyFormat (pre @ body)"
    using validatePublicKeyFormat_iff [of "pre @ body" C] by blast
next
  assume v: "validatePublicKeyFormat s"
  have "length (strip_key s) = 64 \<and> list_all is_hex_digit (strip_key s)"
    using v by (simp add: validatePublicKeyFormat_def Let_def split: if_splits)
  then show "let u = filter (\<lambda>c. \<not> is_space c) s;
             h = (if has_0x_prefix u then drop 2 u else u)
         in length h = 64 \<and> list_all is_hex_digit h"
    using strip_key_after_filter [OF v] by (simp add: Let_def)
  show "parsePublicKey C s =
            (case fromHex C (strip_key s) of None \<Rightarrow> Inl InvalidPoint | Some P \<Rightarrow> Inr P)"
    using v validatePublicKeyFormat_iff [of s C] by blast
next
  assume "\<not> validatePublicKeyFormat s"
  then show "\<exists>e. is_format_error e \<and> parsePublicKey C s = Inl e \<and> initializeState C s = Inl e"
    using validatePublicKeyFormat_iff [of s C] by blast
qed

theorem validatePublicKeyFormat_accepts_witness:
  "validatePublicKeyFormat (''0x'' @ '' 17000000 00000000000000000000000000000000000000000000000000000000 '')
   \<and> parsePublicKey toy23 (''0x'' @ '' 17000000 00000000000000000000000000000000000000000000000000000000 '') = Inr 2
   \<and> \<not> validatePublicKeyFormat ''0x17''
   \<and> (\<exists>e. is_format_error e
         \<and> parsePublicKey toy23 ''0x17'' = Inl e \<and> initializeState toy23 ''0x17'' = Inl e)"
proof -
  let ?body = "'' 17000000 00000000000000000000000000000000000000000000000000000000 ''"
  have body: "(''0x'' = [] \<or> ''0x'' = ''0x'' \<or> ''0x'' = ''0X'')
      \<and> length (filter (\<lambda>c. \<not> is_space c) ?body) = 64
      \<and> list_all is_hex_digit (filter (\<lambda>c. \<not> is_space c) ?body)"
    by code_simp
  have dec: "fromHex toy23 (strip_key (''0x'' @ ?body)) = Some 2"
    by code_simp
  have bad: "\<not> validatePublicKeyFormat ''0x17''"
    by code_simp
  have good: "validatePublicKeyFormat (''0x'' @ ?body)"
    using validatePublicKeyFormat_accepts [of "''0x''" ?body "''0x''" toy23] body by blast
  moreover have "parsePublicKey toy23 (''0x'' @ ?body) = Inr 2"
    using validatePublicKeyFormat_accepts [of "''0x''" ?body "''0x'' @ ?body" toy23] good
    by (simp only: dec option.case)
  moreover have "\<exists>e. is_format_error e
         \<and> parsePublicKey toy23 ''0x17'' = Inl e \<and> initializeState toy23 ''0x17'' = Inl e"
    using validatePublicKeyFormat_accepts [of "''0x''" ?body "''0x17''" toy23] bad by blast
  ultimately show ?thesis
    using bad by blast
qed

section \<open>The estimate of the remaining time\<close>







section \<open>Further facts about the engine\<close>

subsection \<open>What the solver returns is verified\<close>

lemma solveForK_sound:
  assumes "solveForK C ta tb ha hb T = Some k"
  shows "1 \<le> k \<and> k < group_order C \<and> pointsEqual C (smul C (nat k) (BASE C)) T"
  using assms
  by (auto simp: solveForK_def Let_def multiply_def split: if_splits sum.splits)

subsection \<open>The restart, when the curve takes the scalars\<close>

lemma performIterations_loop_done:
  "\<not> i < b \<Longrightarrow>
   performIterations_loop C cur b i =
     Inr \<lparr>state = cur\<lparr>iteration := number_plus (iteration cur) (Num (int b))\<rparr>,
          collision = False, privateKey = None\<rparr>"
  by (subst performIterations_loop.simps) simp

lemma performIterations_restart:
  assumes "walk_tick C s = Inr w"
    and "pointsEqual C (tortoisePoint w) (harePoint w)"
    and "solveForK C (tortoiseAlpha w) (tortoiseBeta w) (hareAlpha w) (hareBeta w) (Q s) = None"
    and "newAlpha = (tortoiseAlpha w + 1) smod group_order C"
    and "1 \<le> newAlpha" and "newAlpha < group_order C"
    and "1 \<le> tortoiseBeta w" and "tortoiseBeta w < group_order C"
    and "startPoint = padd C (smul C (nat newAlpha) (BASE C)) (smul C (nat (tortoiseBeta w)) (Q s))"
  shows "performIterations C s 1 =
           Inr \<lparr>state = w\<lparr>iteration := number_plus (iteration s) (Num 1),
                           tortoisePoint := startPoint, tortoiseAlpha := newAlpha,
                           harePoint := startPoint, hareAlpha := newAlpha\<rparr>,
                collision = False, privateKey = None\<rparr>"
proof -
  have frame: "iteration w = iteration s"
    using walk_tick_frame [OF assms(1)] by simp
  have "performIterations_loop C s 1 0 =
          performIterations_loop C
            (w\<lparr>tortoisePoint := startPoint, tortoiseAlpha := newAlpha,
               harePoint := startPoint, hareAlpha := newAlpha\<rparr>) 1 (0 + 1)"
    using assms(2-9)
    by (simp add: performIterations_loop_tick [OF _ assms(1)] multiply_def Let_def)
  then show ?thesis
    unfolding performIterations_def
    by (simp add: performIterations_loop_done frame)
qed

subsection \<open>The compact encoding of a state whose key has the prefix\<close>

lemma nat_of_hex_snoc: "nat_of_hex (s @ [c]) = 16 * nat_of_hex s + hex_value c"
  by (simp add: nat_of_hex_def)

lemma nat_of_hex_hex_of_nat: "nat_of_hex (hex_of_nat k) = k"
proof (induction k rule: hex_of_nat.induct)
  case (1 k)
  show ?case
  proof (cases "k < 16")
    case True
    then show ?thesis
      by (subst hex_of_nat.simps) (simp add: nat_of_hex_def hex_value_hex_char)
  next
    case False
    then have "nat_of_hex (hex_of_nat k) = 16 * nat_of_hex (hex_of_nat (k div 16)) + hex_value (hex_char (k mod 16))"
      by (subst hex_of_nat.simps) (simp add: nat_of_hex_snoc)
    then show ?thesis
      using 1 False by (simp add: hex_value_hex_char)
  qed
qed

lemma hex_of_nat_nonempty: "hex_of_nat k \<noteq> []"
  by (subst hex_of_nat.simps) simp

lemma hex_digits_hd:
  assumes "list_all is_hex_digit s" and "s \<noteq> []"
  shows "is_hex_digit (hd s)"
  using assms by (cases s) simp_all

lemma trimEnd_hex: "list_all is_hex_digit s \<Longrightarrow> trimEnd s = s"
proof -
  assume hex: "list_all is_hex_digit s"
  have "dropWhile is_space (rev s) = rev s"
  proof (cases "s = []")
    case True
    then show ?thesis by simp
  next
    case False
    have "list_all is_hex_digit (rev s)"
      using hex by (simp add: list_all_iff)
    then have "is_hex_digit (hd (rev s))"
      using False by (intro hex_digits_hd) simp_all
    then show ?thesis
      using False by (simp add: dropWhile_eq_self_iff hex_digit_not_space)
  qed
  then show ?thesis
    by (simp add: trimEnd_def)
qed

lemma BigInt_0x_toString16: "0 \<le> a \<Longrightarrow> BigInt_0x (bigint_toString16 a) = Inr a"
  by (simp add: BigInt_0x_def bigint_toString16_def trimEnd_hex hex_of_nat_digits
      hex_of_nat_nonempty nat_of_hex_hex_of_nat)

lemma parseInt16_hex:
  assumes "list_all is_hex_digit s" and "s \<noteq> []"
  shows "parseInt16 s = to_double (int (nat_of_hex s))"
proof -
  have hd: "is_hex_digit (hd s)"
    using assms by (rule hex_digits_hd)
  then have a: "dropWhile is_space s = s"
    using assms(2) by (simp add: dropWhile_eq_self_iff hex_digit_not_space)
  have b: "take (Suc 0) s \<noteq> ''-''" "take (Suc 0) s \<noteq> ''+''"
    using hd assms(2) by (cases s; auto simp: is_hex_digit_def)+
  have c: "\<not> has_0x_prefix s"
    using assms(1) by (intro hex_key_no_prefix) (simp add: hex_digits_no_space)
  have d: "takeWhile is_hex_digit s = s"
    using assms(1) by (simp add: takeWhile_eq_all_conv list_all_iff)
  show ?thesis
    using assms(2) by (simp add: parseInt16_def Let_def a b c d)
qed

lemma parseInt16_toString16:
  assumes "reads_back x"
  shows "parseInt16 (number_toString16 x) = x"
proof (cases x)
  case NaN
  have "parseInt16 ''NaN'' = NaN"
    by code_simp
  then show ?thesis
    by (simp add: NaN number_toString16_def)
next
  case (Num i)
  then have i: "to_double i = Num i"
    using assms by (simp add: reads_back_def)
  show ?thesis
  proof (cases "i < 0")
    case False
    then show ?thesis
      using parseInt16_hex [OF hex_of_nat_digits hex_of_nat_nonempty, of "nat i"]
      by (simp add: Num number_toString16_def bigint_toString16_def nat_of_hex_hex_of_nat i)
  next
    case True
    let ?h = "hex_of_nat (nat (- i))"
    have hd: "is_hex_digit (hd ?h)"
      using hex_of_nat_digits hex_of_nat_nonempty by (rule hex_digits_hd)
    have c: "\<not> has_0x_prefix ?h"
      by (intro hex_key_no_prefix) (simp add: hex_digits_no_space hex_of_nat_digits)
    have d: "takeWhile is_hex_digit ?h = ?h"
      using hex_of_nat_digits [of "nat (- i)"] by (simp add: takeWhile_eq_all_conv list_all_iff)
    have "\<not> is_space CHR ''-''"
      by (simp add: is_space_def)
    then have "parseInt16 (CHR ''-'' # ?h) = to_double (- int (nat_of_hex ?h))"
      by (simp add: parseInt16_def Let_def c d hex_of_nat_nonempty)
    then show ?thesis
      using True by (simp add: Num number_toString16_def bigint_toString16_def nat_of_hex_hex_of_nat i)
  qed
next
  case Infinity
  then show ?thesis
    using assms by (simp add: reads_back_def)
next
  case NegInfinity
  then show ?thesis
    using assms by (simp add: reads_back_def)
qed

lemma compact_roundtrip_prefixed:
  assumes "curve_ok C"
    and "take 2 (publicKey st) = ''0x''"
    and "parsePublicKey C (publicKey st) = Inr (Q st)"
    and "on_curve C (tortoisePoint st)" and "on_curve C (harePoint st)"
    and "0 \<le> tortoiseAlpha st" and "0 \<le> tortoiseBeta st"
    and "0 \<le> hareAlpha st" and "0 \<le> hareBeta st"
    and "reads_back (iteration st)" and "reads_back v"
  shows "stateFromCompact C (stateToCompact C st v) = Some (st, v)"
proof -
  define h where "h = drop 2 (publicKey st)"
  have key: "publicKey st = CHR ''0'' # CHR ''x'' # h"
    using assms(2) append_take_drop_id [of 2 "publicKey st"] by (simp add: h_def)
  have "list_all is_hex_digit (strip_key (publicKey st))"
    using assms(3) by (simp add: parsePublicKey_def Let_def split: if_splits)
  then have "list_all is_hex_digit (filter (\<lambda>c. \<not> is_space c) h)"
    by (simp add: key strip_key_def has_0x_prefix_def)
  moreover have "\<not> is_hex_digit CHR ''|''" "\<not> is_space CHR ''|''"
    by (simp_all add: is_hex_digit_def is_space_def)
  ultimately have pipe: "CHR ''|'' \<notin> set (drop 2 (publicKey st))"
    unfolding h_def [symmetric] list_all_iff by auto
  have parse: "parsePublicKey C (CHR ''0'' # CHR ''x'' # h) = Inr (Q st)"
    using assms(3) by (simp add: key)
  have dec: "fromHex C (toHex C (tortoisePoint st)) = Some (tortoisePoint st)"
      "fromHex C (toHex C (harePoint st)) = Some (harePoint st)"
    using assms(1,4,5) unfolding curve_ok_def by blast+
  have "stateFromCompact C (stateToCompact C st v) =
          Some (\<lparr>publicKey = CHR ''0'' # CHR ''x'' # h, iteration = iteration st,
                 tortoisePoint = tortoisePoint st, tortoiseAlpha = tortoiseAlpha st,
                 tortoiseBeta = tortoiseBeta st,
                 harePoint = harePoint st, hareAlpha = hareAlpha st, hareBeta = hareBeta st,
                 Q = Q st\<rparr>, v)"
    unfolding stateFromCompact_def split_stateToCompact [OF pipe] h_def [symmetric]
    using assms(6-11) by (simp add: parse dec BigInt_0x_toString16 parseInt16_toString16)
  then show ?thesis
    using key by (cases st) simp
qed

end
